theory Spec2Isabelle
  imports Main
begin

section \<open>Strings\<close>

text \<open>
  A JavaScript string is modelled as a \<^typ>\<open>string\<close>: a list of code units below
  \<open>0x100\<close>. In that range the code units that \<open>String.prototype.trim\<close> removes
  (WhiteSpace and LineTerminator of ECMAScript) are TAB, LF, VT, FF, CR, SPACE and NBSP.
  A string is truthy exactly when it is not empty.
\<close>

definition isWhiteSpace :: "char \<Rightarrow> bool" where
  "isWhiteSpace c = ((of_char c :: nat) \<in> set [9, 10, 11, 12, 13, 32, 160])"

definition trim :: "string \<Rightarrow> string" where
  "trim s = rev (dropWhile isWhiteSpace (rev (dropWhile isWhiteSpace s)))"

section \<open>The speech recognition hook (src/hooks/useSpeechRecognition.ts)\<close>

subsection \<open>Data\<close>

text \<open>
  A result slot of a \<open>SpeechRecognitionEvent\<close>: its \<open>isFinal\<close> flag and the
  transcript of its first alternative (\<open>results[i][0].transcript\<close>).
\<close>

record result_slot =
  isFinal :: bool
  transcript :: string

record recognition_event =
  resultIndex :: nat
  results :: "result_slot list"

datatype error_code =
  NoSpeech | Aborted | AudioCapture | Network | NotAllowed | ServiceNotAllowed
  | BadGrammar | LanguageNotSupported

fun error_code_name :: "error_code \<Rightarrow> string" where
  "error_code_name NoSpeech = ''no-speech''"
| "error_code_name Aborted = ''aborted''"
| "error_code_name AudioCapture = ''audio-capture''"
| "error_code_name Network = ''network''"
| "error_code_name NotAllowed = ''not-allowed''"
| "error_code_name ServiceNotAllowed = ''service-not-allowed''"
| "error_code_name BadGrammar = ''bad-grammar''"
| "error_code_name LanguageNotSupported = ''language-not-supported''"

text \<open>
  The recognition instances made by \<open>new SpeechRecognitionAPI()\<close> and the timers made by
  \<open>window.setTimeout\<close> are named by numbers. A timer handle of the browser is a positive
  integer, so a handle held in \<open>utteranceFinalizationTimeoutRef\<close> is truthy exactly when
  the reference is not \<open>null\<close>.
\<close>

datatype handle = Handle nat

datatype timer_id = TimerId nat

text \<open>
  What the hook does to the outside, in the order it does it: calls of \<open>start()\<close> and
  \<open>stop()\<close> on a recognition instance, and utterances published by
  \<open>processCurrentUtterance\<close> through \<open>setFinalizedUtterance\<close>. A \<open>stop()\<close> is
  logged with the value \<open>manualStopRef.current\<close> holds when the call is made.
\<close>

datatype effect =
  HandleStart handle
  | HandleStop handle bool
  | Finalized string

text \<open>The outcome of a call of \<open>start()\<close>: it returns, or throws a
  \<open>DOMException\<close> named \<open>InvalidStateError\<close>, or throws something else.\<close>

datatype start_outcome = Started | InvalidStateError | OtherFailure

text \<open>
  The state of one mounted hook: the five \<open>useState\<close> cells, the four \<open>useRef\<close>
  cells, and the part of the browser the hook acts on: whether the page has a
  \<open>SpeechRecognition\<close> constructor, the pending timers with their deadlines (in the
  order they were armed), the clock in milliseconds, and the log of effects.
\<close>

record hook_state =
  isListening :: bool
  interimTranscript :: string
  finalizedUtterance :: string
  error :: "string option"
  hasPermission :: "bool option"
  recognitionRef :: "handle option"
  manualStopRef :: bool
  currentUtteranceRef :: string
  utteranceFinalizationTimeoutRef :: "timer_id option"
  speechApiAvailable :: bool
  nextHandle :: nat
  timers :: "(timer_id \<times> nat) list"
  nextTimer :: nat
  now :: nat
  trace :: "effect list"

definition initial_state :: "bool \<Rightarrow> hook_state" where
  "initial_state api =
     \<lparr> isListening = False, interimTranscript = [], finalizedUtterance = [],
       error = None, hasPermission = None, recognitionRef = None,
       manualStopRef = False, currentUtteranceRef = [],
       utteranceFinalizationTimeoutRef = None,
       speechApiAvailable = api, nextHandle = 0, timers = [], nextTimer = 1,
       now = 0, trace = [] \<rparr>"

subsection \<open>The browser's timers\<close>

text \<open>
  \<open>window.setTimeout\<close> takes its delay as a 32-bit signed integer: the number is
  reduced modulo \<open>2^32\<close>, a result from \<open>2^31\<close> on stands for a negative number, and
  a negative delay counts as 0. A delay below \<open>2^31\<close> is taken as it is.
\<close>

definition timerDelay :: "nat \<Rightarrow> nat" where
  "timerDelay ms = (let m = ms mod 4294967296 in if m < 2147483648 then m else 0)"

definition setTimeout :: "nat \<Rightarrow> hook_state \<Rightarrow> timer_id \<times> hook_state" where
  "setTimeout ms s =
     (let t = TimerId (nextTimer s)
      in (t, s\<lparr> timers := timers s @ [(t, now s + timerDelay ms)],
                nextTimer := Suc (nextTimer s) \<rparr>))"

definition clearTimeout :: "timer_id \<Rightarrow> hook_state \<Rightarrow> hook_state" where
  "clearTimeout t s = s\<lparr> timers := filter (\<lambda>p. fst p \<noteq> t) (timers s) \<rparr>"

subsection \<open>The callbacks of the hook\<close>

text \<open>
  Each callback is a function from the state before to the state after. A callback reads a
  \<open>useState\<close> variable through its closure; the model reads the variable in the state
  before the call, that is, the closures are those of the latest render. The one callback
  that outlives its render, the \<open>onchange\<close> handler of the permission query, takes what
  it captured as an argument. The assignments and calls of a callback are applied in the
  order of the source.
\<close>

definition clearFinalizedUtterance :: "hook_state \<Rightarrow> hook_state" where
  "clearFinalizedUtterance s = s\<lparr> finalizedUtterance := [] \<rparr>"

definition processCurrentUtterance :: "hook_state \<Rightarrow> hook_state" where
  "processCurrentUtterance s =
     (let s1 = (if trim (currentUtteranceRef s) \<noteq> []
                then s\<lparr> finalizedUtterance := trim (currentUtteranceRef s),
                        trace := trace s @ [Finalized (trim (currentUtteranceRef s))],
                        currentUtteranceRef := [],
                        interimTranscript := [] \<rparr>
                else s)
      in case utteranceFinalizationTimeoutRef s1 of
           None \<Rightarrow> s1
         | Some t \<Rightarrow> (clearTimeout t s1)\<lparr> utteranceFinalizationTimeoutRef := None \<rparr>)"

definition initializeRecognition :: "hook_state \<Rightarrow> handle option \<times> hook_state" where
  "initializeRecognition s =
     (if \<not> speechApiAvailable s
      then (None, s\<lparr> error := Some ''Speech recognition is not supported in this browser.'',
                      hasPermission := Some False \<rparr>)
      else (Some (Handle (nextHandle s)), s\<lparr> nextHandle := Suc (nextHandle s) \<rparr>))"

definition permissionDeniedMessage :: string where
  "permissionDeniedMessage =
     ''Microphone permission denied. Please enable microphone access in your browser settings.''"

definition onstart :: "hook_state \<Rightarrow> hook_state" where
  "onstart s = s\<lparr> isListening := True, error := None \<rparr>"

text \<open>The loop of \<open>onresult\<close> over the slots from \<open>resultIndex\<close> on: the two
  accumulators \<open>interim\<close> and \<open>finalSegmentThisEvent\<close>.\<close>

fun collect :: "result_slot list \<Rightarrow> string \<times> string \<Rightarrow> string \<times> string" where
  "collect [] acc = acc"
| "collect (r # rs) (interim, finalSegmentThisEvent) =
     (if isFinal r
      then collect rs (interim, finalSegmentThisEvent @ transcript r)
      else collect rs (interim @ transcript r, finalSegmentThisEvent))"

definition onresult :: "nat \<Rightarrow> recognition_event \<Rightarrow> hook_state \<Rightarrow> hook_state" where
  "onresult utteranceSilenceTimeoutMs event s =
     (let (interim, finalSegmentThisEvent) =
            collect (drop (resultIndex event) (results event)) ([], []);
          s1 = s\<lparr> interimTranscript := interim \<rparr>;
          s2 = (if finalSegmentThisEvent \<noteq> []
                then s1\<lparr> currentUtteranceRef := currentUtteranceRef s1 @ finalSegmentThisEvent \<rparr>
                else s1)
      in if interim \<noteq> [] \<or> finalSegmentThisEvent \<noteq> []
         then (let s3 = (case utteranceFinalizationTimeoutRef s2 of
                           None \<Rightarrow> s2
                         | Some t \<Rightarrow> clearTimeout t s2);
                   (t', s4) = setTimeout utteranceSilenceTimeoutMs s3
               in s4\<lparr> utteranceFinalizationTimeoutRef := Some t' \<rparr>)
         else s2)"

definition onerror :: "error_code \<Rightarrow> hook_state \<Rightarrow> hook_state" where
  "onerror code s =
     (let s1 = (if code = NoSpeech then s\<lparr> error := None \<rparr>
                else if code = NotAllowed \<or> code = ServiceNotAllowed
                then processCurrentUtterance
                       (s\<lparr> error := Some permissionDeniedMessage,
                           hasPermission := Some False,
                           manualStopRef := True \<rparr>)
                else s\<lparr> error := Some (''Speech recognition error: '' @ error_code_name code) \<rparr>)
      in s1\<lparr> isListening := False \<rparr>)"

text \<open>
  \<open>onend\<close>. A \<open>start()\<close> that throws here is caught and only logged to the console,
  so its outcome changes nothing in the state.
\<close>

definition onend :: "hook_state \<Rightarrow> hook_state" where
  "onend s =
     (let s1 = s\<lparr> isListening := False \<rparr>;
          s2 = (if \<not> manualStopRef s1 then processCurrentUtterance s1 else s1)
      in if \<not> manualStopRef s2 \<and> hasPermission s2 \<noteq> Some False
         then (case recognitionRef s2 of
                 None \<Rightarrow> s2
               | Some h \<Rightarrow>
                   (if \<not> manualStopRef s2
                    then s2\<lparr> trace := trace s2 @ [HandleStart h] \<rparr>
                    else s2))
         else s2)"

definition startListening :: "start_outcome \<Rightarrow> hook_state \<Rightarrow> hook_state" where
  "startListening outcome s =
     (let s1 = clearFinalizedUtterance
                 (s\<lparr> manualStopRef := False, currentUtteranceRef := [],
                     interimTranscript := [] \<rparr>);
          (ready, s2) =
            (case recognitionRef s1 of
               Some h \<Rightarrow> (True, s1)
             | None \<Rightarrow>
                 (case initializeRecognition s1 of
                    (Some rec, s') \<Rightarrow> (True, s'\<lparr> recognitionRef := Some rec \<rparr>)
                  | (None, s') \<Rightarrow>
                      (False, s'\<lparr> error := Some ''Speech recognition could not be initialized.'' \<rparr>)))
      in if \<not> ready then s2
         else (case recognitionRef s2 of
                 None \<Rightarrow> s2
               | Some h \<Rightarrow>
                   (if isListening s2 then s2
                    else if hasPermission s2 = Some False
                    then s2\<lparr> error := Some ''Cannot start listening: Microphone permission was denied.'' \<rparr>
                    else (let s3 = s2\<lparr> trace := trace s2 @ [HandleStart h] \<rparr>
                          in case outcome of
                               Started \<Rightarrow> s3
                             | InvalidStateError \<Rightarrow> s3
                             | OtherFailure \<Rightarrow>
                                 s3\<lparr> error := Some ''Failed to start speech recognition.'' \<rparr>))))"

text \<open>
  \<open>stopListening\<close> is a \<open>useCallback\<close> closure over \<open>isListening\<close>:
  \<open>stopListeningWith c\<close> is the closure of a render in which \<open>isListening\<close> was
  \<open>c\<close>. The component calls the closure of the latest render.
\<close>

definition stopListeningWith :: "bool \<Rightarrow> hook_state \<Rightarrow> hook_state" where
  "stopListeningWith isListening' s =
     (let s1 = s\<lparr> manualStopRef := True \<rparr>;
          s2 = (case utteranceFinalizationTimeoutRef s1 of
                  None \<Rightarrow> s1
                | Some t \<Rightarrow> (clearTimeout t s1)\<lparr> utteranceFinalizationTimeoutRef := None \<rparr>);
          s3 = processCurrentUtterance s2;
          s4 = (case recognitionRef s3 of
                  None \<Rightarrow> s3
                | Some h \<Rightarrow>
                    (if isListening'
                     then s3\<lparr> trace := trace s3 @ [HandleStop h (manualStopRef s3)] \<rparr>
                     else s3))
      in s4\<lparr> isListening := False \<rparr>)"

definition stopListening :: "hook_state \<Rightarrow> hook_state" where
  "stopListening s = stopListeningWith (isListening s) s"

text \<open>
  The effect that owns the recognition instance (lines 144 to 168): on mount it creates the
  instance early when the permission is still unknown; its cleanup detaches the handlers,
  stops the instance and cancels the timer (the reference keeps the stale timer handle).
\<close>

definition effectMount :: "hook_state \<Rightarrow> hook_state" where
  "effectMount s =
     (if hasPermission s = None \<and> recognitionRef s = None
      then (case initializeRecognition s of
              (Some rec, s') \<Rightarrow> s'\<lparr> recognitionRef := Some rec \<rparr>
            | (None, s') \<Rightarrow> s')
      else s)"

definition effectCleanup :: "hook_state \<Rightarrow> hook_state" where
  "effectCleanup s =
     (let s1 = (case recognitionRef s of
                  None \<Rightarrow> s
                | Some h \<Rightarrow>
                    s\<lparr> manualStopRef := True,
                       trace := trace s @ [HandleStop h True],
                       recognitionRef := None \<rparr>)
      in case utteranceFinalizationTimeoutRef s1 of
           None \<Rightarrow> s1
         | Some t \<Rightarrow> clearTimeout t s1)"

text \<open>
  The permission query (lines 222 to 250). \<open>permissionStatus.state\<close> is one of
  \<open>granted\<close>, \<open>denied\<close> and \<open>prompt\<close>. The effect issues the query while
  \<open>hasPermission\<close> is null. The \<open>onchange\<close> handler it installs is a closure of that
  run of the effect: it keeps the \<open>isListening\<close> and the \<open>stopListening\<close> of the render
  that issued the query, whatever the state is when the permission changes.
\<close>

datatype permission_state = Granted | Denied | Prompt

definition onPermissionQuery :: "permission_state \<Rightarrow> hook_state \<Rightarrow> hook_state" where
  "onPermissionQuery st s =
     (let s1 = s\<lparr> hasPermission := Some (st = Granted) \<rparr>
      in if st = Denied then s1\<lparr> error := Some permissionDeniedMessage \<rparr> else s1)"

definition onPermissionChange :: "bool \<Rightarrow> permission_state \<Rightarrow> hook_state \<Rightarrow> hook_state" where
  "onPermissionChange capturedIsListening st s =
     (let newPermissionState = (st = Granted);
          s1 = s\<lparr> hasPermission := Some newPermissionState \<rparr>
      in if \<not> newPermissionState
         then (let s2 = s1\<lparr> error := Some permissionDeniedMessage \<rparr>
               in if capturedIsListening then stopListeningWith capturedIsListening s2 else s2)
         else s1\<lparr> error := None \<rparr>)"

subsection \<open>Time\<close>

text \<open>
  When the clock reaches the deadline of a pending timer the browser removes the timer and
  runs its callback, which for every timer of the hook is \<open>processCurrentUtterance\<close>.
  Timers that are due run in the order they were armed.
\<close>

function runDueTimers :: "hook_state \<Rightarrow> hook_state" where
  "runDueTimers s =
     (case find (\<lambda>p. snd p \<le> now s) (timers s) of
        None \<Rightarrow> s
      | Some p \<Rightarrow> runDueTimers (processCurrentUtterance (clearTimeout (fst p) s)))"
  by pat_completeness auto
termination
proof (relation "measure (\<lambda>s. length (timers s))")
  show "wf (measure (\<lambda>s. length (timers s)))" by simp
next
  fix s :: hook_state and p
  assume f: "find (\<lambda>p. snd p \<le> now s) (timers s) = Some p"
  then have "p \<in> set (timers s)"
    by (auto simp: find_Some_iff)
  then have "length (filter (\<lambda>q. fst q \<noteq> fst p) (timers s)) < length (timers s)"
    by (intro length_filter_less[of p]) auto
  moreover have "length (timers (processCurrentUtterance s')) \<le> length (timers s')" for s'
    by (simp add: processCurrentUtterance_def clearTimeout_def Let_def split: option.split)
  from this[of "clearTimeout (fst p) s"]
  have "length (timers (processCurrentUtterance (clearTimeout (fst p) s)))
          \<le> length (timers (clearTimeout (fst p) s))" .
  ultimately show "(processCurrentUtterance (clearTimeout (fst p) s), s)
                     \<in> measure (\<lambda>s. length (timers s))"
    by (simp add: clearTimeout_def)
qed

declare runDueTimers.simps [simp del]

definition advance :: "nat \<Rightarrow> hook_state \<Rightarrow> hook_state" where
  "advance ms s = runDueTimers (s\<lparr> now := now s + ms \<rparr>)"

subsection \<open>Runs of the hook\<close>

datatype hook_event =
  OnStart
  | OnResult recognition_event
  | OnError error_code
  | OnEnd
  | StartListening start_outcome
  | StopListening
  | ClearFinalizedUtterance
  | EffectMount
  | EffectCleanup
  | PermissionQuery permission_state
  | PermissionChange bool permission_state
  | Advance nat

fun hook_step :: "nat \<Rightarrow> hook_state \<Rightarrow> hook_event \<Rightarrow> hook_state" where
  "hook_step T s OnStart = onstart s"
| "hook_step T s (OnResult event) = onresult T event s"
| "hook_step T s (OnError code) = onerror code s"
| "hook_step T s OnEnd = onend s"
| "hook_step T s (StartListening outcome) = startListening outcome s"
| "hook_step T s StopListening = stopListening s"
| "hook_step T s ClearFinalizedUtterance = clearFinalizedUtterance s"
| "hook_step T s EffectMount = effectMount s"
| "hook_step T s EffectCleanup = effectCleanup s"
| "hook_step T s (PermissionQuery st) = onPermissionQuery st s"
| "hook_step T s (PermissionChange captured st) = onPermissionChange captured st s"
| "hook_step T s (Advance ms) = advance ms s"

definition hook_run :: "nat \<Rightarrow> hook_event list \<Rightarrow> hook_state \<Rightarrow> hook_state" where
  "hook_run T evs s = foldl (hook_step T) s evs"

text \<open>The utterances published and the \<open>start()\<close> calls made, read off a log.\<close>

fun published :: "effect list \<Rightarrow> string list" where
  "published [] = []"
| "published (Finalized u # es) = u # published es"
| "published (e # es) = published es"

fun startCalls :: "effect list \<Rightarrow> handle list" where
  "startCalls [] = []"
| "startCalls (HandleStart h # es) = h # startCalls es"
| "startCalls (e # es) = startCalls es"

text \<open>
  A timed sequence of result batches: each batch comes with the time in milliseconds that
  has passed since the event before it.
\<close>

fun feed :: "nat \<Rightarrow> (nat \<times> recognition_event) list \<Rightarrow> hook_state \<Rightarrow> hook_state" where
  "feed T [] s = s"
| "feed T ((d, b) # bs) s = feed T bs (onresult T b (advance d s))"

definition newSlots :: "recognition_event \<Rightarrow> result_slot list" where
  "newSlots b = drop (resultIndex b) (results b)"

definition onlyFinal :: "recognition_event \<Rightarrow> bool" where
  "onlyFinal b = list_all isFinal (newSlots b)"

definition finalText :: "recognition_event \<Rightarrow> string" where
  "finalText b = concat (map transcript (filter isFinal (newSlots b)))"

text \<open>The final text a timed sequence of batches has delivered, in arrival order.\<close>

definition spoken :: "(nat \<times> recognition_event) list \<Rightarrow> string" where
  "spoken bs = concat (map (\<lambda>p. finalText (snd p)) bs)"

text \<open>The silence timer is armed, alone, and due \<open>T\<close> ms from now.\<close>

definition armed :: "nat \<Rightarrow> hook_state \<Rightarrow> bool" where
  "armed T s =
     (case utteranceFinalizationTimeoutRef s of
        None \<Rightarrow> False
      | Some t \<Rightarrow> timers s = [(t, now s + T)])"

section \<open>The conversation orchestrator (the \<open>App\<close> component)\<close>

record ConversationTurn =
  turn_id :: string
  utterance :: string
  answer :: "string option"
  answerError :: "string option"
  isProcessingAnswer :: bool

text \<open>\<open>Date.now().toString()\<close>: the clock in milliseconds, in decimal.\<close>

fun toString :: "nat \<Rightarrow> string" where
  "toString n =
     (if n < 10 then [''0123456789'' ! n]
      else toString (n div 10) @ [''0123456789'' ! (n mod 10)])"

declare toString.simps [simp del]

definition newTurn :: "nat \<Rightarrow> string \<Rightarrow> ConversationTurn" where
  "newTurn dateNow finalizedUtterance' =
     \<lparr> turn_id = toString dateNow, utterance = finalizedUtterance',
       answer = Some [], answerError = None, isProcessingAnswer = True \<rparr>"

text \<open>
  The three updates \<open>processStream\<close> makes to the conversation, each a \<open>map\<close> over
  the turns that compares \<open>turn.id\<close> with the captured \<open>newTurnId\<close>.
\<close>

definition appendChunk :: "string \<Rightarrow> string \<Rightarrow> ConversationTurn list \<Rightarrow> ConversationTurn list" where
  "appendChunk newTurnId textChunk prev =
     map (\<lambda>turn. if turn_id turn = newTurnId
                  then turn\<lparr> answer := Some ((case answer turn of None \<Rightarrow> [] | Some a \<Rightarrow> a) @ textChunk) \<rparr>
                  else turn) prev"

definition streamFailed :: "string \<Rightarrow> string \<Rightarrow> ConversationTurn list \<Rightarrow> ConversationTurn list" where
  "streamFailed newTurnId errorMessage prev =
     map (\<lambda>turn. if turn_id turn = newTurnId
                  then turn\<lparr> answerError := Some errorMessage, isProcessingAnswer := False \<rparr>
                  else turn) prev"

definition streamFinally :: "string \<Rightarrow> ConversationTurn list \<Rightarrow> ConversationTurn list" where
  "streamFinally newTurnId prev =
     map (\<lambda>turn. if turn_id turn = newTurnId then turn\<lparr> isProcessingAnswer := False \<rparr> else turn) prev"

text \<open>
  A chunk of the answer stream is its \<open>text\<close>, which may be undefined. The stream ends
  by completing or by throwing: an \<open>Error\<close> with its message, or some other value.
\<close>

datatype thrown = ErrorObject string | NotAnError

datatype stream_end = Completed | Threw thrown

text \<open>
  \<open>generateAnswerStream\<close> (the streaming client) catches whatever the service throws and
  throws an \<open>Error\<close> of its own in its place; this is what \<open>processStream\<close> catches.
\<close>

fun generateAnswerStreamError :: "thrown \<Rightarrow> thrown" where
  "generateAnswerStreamError (ErrorObject message) =
     ErrorObject (''Gemini API stream error: '' @ message)"
| "generateAnswerStreamError NotAnError =
     ErrorObject ''An unknown error occurred while streaming an answer from Gemini.''"

fun errorMessageOf :: "thrown \<Rightarrow> string" where
  "errorMessageOf (ErrorObject message) = message"
| "errorMessageOf NotAnError = ''Failed to get answer stream.''"

fun onChunk :: "string \<Rightarrow> string option \<Rightarrow> ConversationTurn list \<Rightarrow> ConversationTurn list" where
  "onChunk newTurnId None prev = prev"
| "onChunk newTurnId (Some textChunk) prev =
     (if textChunk \<noteq> [] then appendChunk newTurnId textChunk prev else prev)"

text \<open>
  The text a stream has delivered: its fragments joined in the order they were yielded (a
  chunk without text adds nothing).
\<close>

definition fragmentsText :: "string option list \<Rightarrow> string" where
  "fragmentsText chunks = concat (map (\<lambda>chunk. case chunk of None \<Rightarrow> [] | Some t \<Rightarrow> t) chunks)"

text \<open>
  \<open>touchesOnly tid before after\<close>: the two conversations have the same turns in the
  same order, every turn keeps its id and its utterance, and a turn whose id is not
  \<open>tid\<close> is unchanged.
\<close>

definition touchesOnly :: "string \<Rightarrow> ConversationTurn list \<Rightarrow> ConversationTurn list \<Rightarrow> bool" where
  "touchesOnly tid before after =
     list_all2 (\<lambda>old new. turn_id new = turn_id old \<and> utterance new = utterance old
                         \<and> (if turn_id old = tid then True else new = old))
       before after"

record app_state =
  hook :: hook_state
  apiKeyVerified :: "bool option"
  isSessionActive :: bool
  conversation :: "ConversationTurn list"
  globalError :: "string option"

definition initial_app :: "bool \<Rightarrow> app_state" where
  "initial_app api =
     \<lparr> hook = initial_state api, apiKeyVerified = None, isSessionActive = False,
       conversation = [], globalError = None \<rparr>"

text \<open>The effect on \<open>finalizedUtterance\<close> (lines 76 to 122), up to the launch of
  \<open>processStream\<close>, whose updates arrive later.\<close>

definition finalizedUtteranceEffect :: "app_state \<Rightarrow> app_state" where
  "finalizedUtteranceEffect a =
     (if finalizedUtterance (hook a) \<noteq> [] \<and> isSessionActive a
      then a\<lparr> conversation :=
                 conversation a @ [newTurn (now (hook a)) (finalizedUtterance (hook a))],
               hook := clearFinalizedUtterance (hook a) \<rparr>
      else a)"

text \<open>\<open>String.prototype.includes\<close>.\<close>

fun str_includes :: "string \<Rightarrow> string \<Rightarrow> bool" where
  "str_includes [] pat = (pat = [])"
| "str_includes (c # cs) pat = (take (length pat) (c # cs) = pat \<or> str_includes cs pat)"

definition handleToggleSession :: "start_outcome \<Rightarrow> app_state \<Rightarrow> app_state" where
  "handleToggleSession outcome a =
     (if apiKeyVerified a \<noteq> Some True
      then a\<lparr> globalError := Some ''Cannot start session: API key not configured.'' \<rparr>
      else if hasPermission (hook a) = Some False
      then a\<lparr> globalError := Some ''Cannot start session: Microphone permission denied. Please enable it in browser settings.'' \<rparr>
      else if hasPermission (hook a) = None
              \<and> (case error (hook a) of None \<Rightarrow> False
                  | Some speechError \<Rightarrow> speechError \<noteq> [] \<and> str_includes speechError ''not supported'')
      then a\<lparr> globalError := Some ''Cannot start session: Microphone not supported by browser.'' \<rparr>
      else (let nextState = \<not> isSessionActive a
            in if nextState
               then a\<lparr> globalError := None, hook := startListening outcome (hook a),
                        isSessionActive := nextState \<rparr>
               else a\<lparr> hook := stopListening (hook a), isSessionActive := nextState \<rparr>))"

definition handleClearConversation :: "bool \<Rightarrow> app_state \<Rightarrow> app_state" where
  "handleClearConversation confirmed a = (if confirmed then a\<lparr> conversation := [] \<rparr> else a)"

subsection \<open>Runs of the application\<close>

text \<open>
  After an event React renders again and runs the effect when one of its dependencies,
  \<open>finalizedUtterance\<close> or \<open>isSessionActive\<close>, has changed.
\<close>

definition afterRender :: "app_state \<Rightarrow> app_state \<Rightarrow> app_state" where
  "afterRender a a' =
     (if finalizedUtterance (hook a') \<noteq> finalizedUtterance (hook a)
         \<or> isSessionActive a' \<noteq> isSessionActive a
      then finalizedUtteranceEffect a' else a')"

datatype app_event =
  Hook hook_event
  | ApiKeyChecked bool
  | ToggleSession start_outcome
  | ClearConversation bool
  | StreamChunk string "string option"
  | StreamThrew string thrown
  | StreamFinally string

fun app_handle :: "nat \<Rightarrow> app_state \<Rightarrow> app_event \<Rightarrow> app_state" where
  "app_handle T a (Hook ev) = a\<lparr> hook := hook_step T (hook a) ev \<rparr>"
| "app_handle T a (ApiKeyChecked ok) =
     (if ok then a\<lparr> apiKeyVerified := Some True \<rparr>
      else a\<lparr> apiKeyVerified := Some False,
              globalError := Some ''Gemini API key is not configured. Please set the API_KEY environment variable.'' \<rparr>)"
| "app_handle T a (ToggleSession outcome) = handleToggleSession outcome a"
| "app_handle T a (ClearConversation confirmed) = handleClearConversation confirmed a"
| "app_handle T a (StreamChunk tid chunk) = a\<lparr> conversation := onChunk tid chunk (conversation a) \<rparr>"
| "app_handle T a (StreamThrew tid err) =
     a\<lparr> conversation := streamFailed tid (errorMessageOf err) (conversation a) \<rparr>"
| "app_handle T a (StreamFinally tid) = a\<lparr> conversation := streamFinally tid (conversation a) \<rparr>"

definition app_step :: "nat \<Rightarrow> app_state \<Rightarrow> app_event \<Rightarrow> app_state" where
  "app_step T a ev = afterRender a (app_handle T a ev)"

definition app_run :: "nat \<Rightarrow> app_event list \<Rightarrow> app_state \<Rightarrow> app_state" where
  "app_run T evs a = foldl (app_step T) a evs"

subsection \<open>The answer stream of a turn\<close>

text \<open>
  \<open>processStream\<close> awaits the chunks of the stream one after the other. It calls
  \<open>setConversation\<close> once for each chunk, with an update of the conversation as it is at
  that moment; once more in its \<open>catch\<close> block when the stream throws; and once in its
  \<open>finally\<close> block. While it waits for the next chunk any other event may happen. So
  \<open>processStream\<close> is the list of the events it causes, in their order; a run of the
  application has them interleaved with its other events.
\<close>

definition processStream :: "string \<Rightarrow> string option list \<Rightarrow> stream_end \<Rightarrow> app_event list" where
  "processStream newTurnId chunks ending =
     map (StreamChunk newTurnId) chunks
     @ (case ending of Completed \<Rightarrow> [] | Threw err \<Rightarrow> [StreamThrew newTurnId err])
     @ [StreamFinally newTurnId]"

text \<open>
  \<open>weave us gaps\<close> interleaves: the events \<open>us\<close> in their order, the first list of
  \<open>gaps\<close> before the first of them, the second between the first and the second, and so
  on; what is left of \<open>gaps\<close> comes after the last.
\<close>

fun weave :: "'a list \<Rightarrow> 'a list list \<Rightarrow> 'a list" where
  "weave [] gaps = concat gaps"
| "weave (u # us) [] = u # weave us []"
| "weave (u # us) (g # gaps) = g @ u # weave us gaps"

text \<open>
  An event is foreign to a turn id when it is no stream update sent under that id and does
  not clear the conversation.
\<close>

fun foreignTo :: "string \<Rightarrow> app_event \<Rightarrow> bool" where
  "foreignTo tid (StreamChunk i chunk) = (i \<noteq> tid)"
| "foreignTo tid (StreamThrew i err) = (i \<noteq> tid)"
| "foreignTo tid (StreamFinally i) = (i \<noteq> tid)"
| "foreignTo tid (ClearConversation confirmed) = (\<not> confirmed)"
| "foreignTo tid ev = True"

text \<open>A stream update sent under a turn id, and what it does to a turn of that id.\<close>

fun ownUpdate :: "string \<Rightarrow> app_event \<Rightarrow> bool" where
  "ownUpdate tid (StreamChunk i chunk) = (i = tid)"
| "ownUpdate tid (StreamThrew i err) = (i = tid)"
| "ownUpdate tid (StreamFinally i) = (i = tid)"
| "ownUpdate tid ev = False"

fun turnUpdate :: "ConversationTurn \<Rightarrow> app_event \<Rightarrow> ConversationTurn" where
  "turnUpdate turn (StreamChunk i (Some textChunk)) =
     (if textChunk \<noteq> []
      then turn\<lparr> answer := Some ((case answer turn of None \<Rightarrow> [] | Some a \<Rightarrow> a) @ textChunk) \<rparr>
      else turn)"
| "turnUpdate turn (StreamThrew i err) =
     turn\<lparr> answerError := Some (errorMessageOf err), isProcessingAnswer := False \<rparr>"
| "turnUpdate turn (StreamFinally i) = turn\<lparr> isProcessingAnswer := False \<rparr>"
| "turnUpdate turn ev = turn"

text \<open>The published utterance is well trimmed when trimming it changes nothing.\<close>

definition wellTrimmed :: "hook_state \<Rightarrow> bool" where
  "wellTrimmed s = (trim (finalizedUtterance s) = finalizedUtterance s)"

section \<open>Predicates on events, states and turns\<close>

text \<open>
  The events that can run \<open>processCurrentUtterance\<close>: the passing of time (a timer
  expiry), a stop, an error, the end of a session and a change of the permission.
\<close>

fun finalizationEvent :: "hook_event \<Rightarrow> bool" where
  "finalizationEvent (Advance ms) = True"
| "finalizationEvent StopListening = True"
| "finalizationEvent (OnError code) = True"
| "finalizationEvent OnEnd = True"
| "finalizationEvent (PermissionChange captured st) = True"
| "finalizationEvent ev = False"


text \<open>The permission is denied, the hook is not listening, and the page has the
  recognition API.\<close>

definition denied :: "hook_state \<Rightarrow> bool" where
  "denied s = (hasPermission s = Some False \<and> \<not> isListening s \<and> speechApiAvailable s)"


text \<open>From the first state to the second nothing was published and the accumulated text
  is the same.\<close>

definition quiet :: "hook_state \<Rightarrow> hook_state \<Rightarrow> bool" where
  "quiet s s' = (finalizedUtterance s' = finalizedUtterance s
                 \<and> published (trace s') = published (trace s)
                 \<and> currentUtteranceRef s' = currentUtteranceRef s)"

text \<open>A turn has a question: its utterance is not empty and is trimmed.\<close>

definition nonEmptyTurn :: "ConversationTurn \<Rightarrow> bool" where
  "nonEmptyTurn turn = (utterance turn \<noteq> [] \<and> trim (utterance turn) = utterance turn)"

text \<open>The invariant of the application: the published utterance is trimmed and every
  turn has a question.\<close>

definition appInv :: "app_state \<Rightarrow> bool" where
  "appInv a = (wellTrimmed (hook a) \<and> list_all nonEmptyTurn (conversation a))"

section \<open>Concrete scenarios\<close>

text \<open>
  States and batches used to run the model: a mounted hook that has been started and is
  listening, the same after a final fragment \<open>" hello "\<close>, after an interim fragment
  \<open>"how"\<close>, and after a \<open>not-allowed\<close> error. The silence timeout is 1500 ms.
\<close>

definition finalSlot :: "string \<Rightarrow> result_slot" where
  "finalSlot txt = \<lparr> isFinal = True, transcript = txt \<rparr>"

definition interimSlot :: "string \<Rightarrow> result_slot" where
  "interimSlot txt = \<lparr> isFinal = False, transcript = txt \<rparr>"

definition batch :: "nat \<Rightarrow> result_slot list \<Rightarrow> recognition_event" where
  "batch i rs = \<lparr> resultIndex = i, results = rs \<rparr>"

definition listeningState :: hook_state where
  "listeningState =
     hook_run 1500 [EffectMount, StartListening Started, OnStart] (initial_state True)"

definition heardHello :: hook_state where
  "heardHello = feed 1500 [(200, batch 0 [finalSlot '' hello ''])] listeningState"

definition heardHow :: hook_state where
  "heardHow = feed 1500 [(200, batch 0 [interimSlot ''how''])] listeningState"

definition deniedState :: hook_state where
  "deniedState = onerror NotAllowed heardHello"

text \<open>An application run that ends with the turn of one question, asked at 2734 ms.\<close>

definition askedCapital :: app_state where
  "askedCapital =
     app_run 1500
       [ApiKeyChecked True, ToggleSession Started, Hook OnStart, Hook (Advance 1234),
        Hook (OnResult (batch 0 [finalSlot ''capital of France''])), Hook (Advance 1500)]
       (initial_app True)"

text \<open>
  An application run in which two utterances are finalized, by two session ends, while the
  clock shows the same millisecond.
\<close>

definition sameMillisecond :: app_state where
  "sameMillisecond =
     app_run 1500
       [ApiKeyChecked True, ToggleSession Started, Hook OnStart, Hook (Advance 1234),
        Hook (OnResult (batch 0 [finalSlot ''first''])), Hook OnEnd,
        Hook (OnResult (batch 0 [finalSlot ''second''])), Hook OnEnd]
       (initial_app True)"

text \<open>
  Two timed sequences of final batches: \<open>"hello "\<close> then \<open>"world"\<close> 700 ms later;
  and \<open>"hello"\<close>, a final result with the empty transcript 1000 ms later, and
  \<open>"world"\<close> another 1000 ms later.
\<close>

text \<open>The listening hook after a final fragment of one space and the expiry of its timer:
  the space is still accumulated and no timer is pending.\<close>

definition discardedSpace :: hook_state where
  "discardedSpace = advance 1500 (feed 1500 [(200, batch 0 [finalSlot '' ''])] listeningState)"

definition helloWorld :: "(nat \<times> recognition_event) list" where
  "helloWorld =
     [(200, batch 0 [finalSlot ''hello '']),
      (700, batch 1 [finalSlot ''hello '', finalSlot ''world''])]"

definition helloPauseWorld :: "(nat \<times> recognition_event) list" where
  "helloPauseWorld =
     [(200, batch 0 [finalSlot ''hello'']),
      (1000, batch 1 [finalSlot ''hello'', finalSlot []]),
      (1000, batch 2 [finalSlot ''hello'', finalSlot [], finalSlot ''world''])]"

text \<open>
  An application run with a session started, an interim fragment \<open>"uh"\<close> and then a
  final fragment of two spaces, 300 ms ago.
\<close>

definition mumbling :: app_state where
  "mumbling =
     app_run 1500
       [ApiKeyChecked True, ToggleSession Started, Hook OnStart, Hook (Advance 100),
        Hook (OnResult (batch 0 [interimSlot ''uh''])),
        Hook (OnResult (batch 0 [finalSlot ''  ''])), Hook (Advance 300)]
       (initial_app True)"

section \<open>Whitespace trimming\<close>

lemma stripEnd_hd: "\<not> P a \<Longrightarrow> \<exists>ys. rev (dropWhile P (rev (a # xs))) = a # ys"
proof (cases "\<forall>x\<in>set xs. P x")
  case True
  assume "\<not> P a"
  with True show ?thesis by (simp add: dropWhile_append)
next
  case False
  assume "\<not> P a"
  with False have "rev (dropWhile P (rev (a # xs))) = a # rev (dropWhile P (rev xs))"
    by (simp add: dropWhile_append)
  then show ?thesis by blast
qed

lemma trim_trim: "trim (trim s) = trim s"
proof (cases "dropWhile isWhiteSpace s")
  case Nil
  show ?thesis unfolding trim_def Nil by simp
next
  case (Cons a xs)
  then have na: "\<not> isWhiteSpace a"
    by (metis hd_dropWhile list.sel(1) list.distinct(1))
  from stripEnd_hd[of isWhiteSpace a xs] na obtain ys where
    ys: "rev (dropWhile isWhiteSpace (rev (a # xs))) = a # ys" by blast
  have "trim s = a # ys" by (simp add: trim_def Cons ys del: rev.simps)
  moreover have "dropWhile isWhiteSpace (a # ys) = a # ys" using na by simp
  ultimately show ?thesis
    unfolding trim_def Cons
    by (metis dropWhile_idem rev_rev_ident ys)
qed

section \<open>The finalized utterance is always trimmed\<close>

lemma trim_Nil: "trim [] = []" by (simp add: trim_def)

lemma wellTrimmed_processCurrentUtterance:
  "wellTrimmed s \<Longrightarrow> wellTrimmed (processCurrentUtterance s)"
  by (simp add: wellTrimmed_def processCurrentUtterance_def clearTimeout_def trim_trim Let_def
           split: option.split)

lemma wellTrimmed_clearTimeout: "wellTrimmed (clearTimeout t s) = wellTrimmed s"
  by (simp add: wellTrimmed_def clearTimeout_def)

lemma wellTrimmed_runDueTimers: "wellTrimmed s \<Longrightarrow> wellTrimmed (runDueTimers s)"
proof (induction s rule: runDueTimers.induct)
  case (1 s)
  show ?case
  proof (cases "find (\<lambda>p. snd p \<le> now s) (timers s)")
    case None
    then show ?thesis using "1.prems" by (simp add: runDueTimers.simps[of s])
  next
    case (Some p)
    have "wellTrimmed (processCurrentUtterance (clearTimeout (fst p) s))"
      using "1.prems" by (simp add: wellTrimmed_processCurrentUtterance wellTrimmed_clearTimeout)
    from "1.IH"[OF Some this] show ?thesis using Some by (simp add: runDueTimers.simps[of s])
  qed
qed

lemma wellTrimmed_stopListeningWith:
  "wellTrimmed s \<Longrightarrow> wellTrimmed (stopListeningWith c s)"
proof -
  assume w: "wellTrimmed s"
  have "wellTrimmed (processCurrentUtterance s')" if "wellTrimmed s'" for s'
    using that by (rule wellTrimmed_processCurrentUtterance)
  then show ?thesis using w
    by (simp add: stopListeningWith_def Let_def wellTrimmed_def clearTimeout_def
          split: option.split)
qed

lemma wellTrimmed_stopListening: "wellTrimmed s \<Longrightarrow> wellTrimmed (stopListening s)"
  by (simp add: stopListening_def wellTrimmed_stopListeningWith)

lemma wellTrimmed_hook_step: "wellTrimmed s \<Longrightarrow> wellTrimmed (hook_step T s ev)"
proof (cases ev)
  case OnStart
  assume "wellTrimmed s" then show ?thesis using OnStart by (simp add: onstart_def wellTrimmed_def)
next
  case (OnResult e)
  assume "wellTrimmed s" then show ?thesis using OnResult
    by (simp add: onresult_def wellTrimmed_def setTimeout_def clearTimeout_def Let_def
             split: prod.split option.split)
next
  case (OnError c)
  assume w: "wellTrimmed s"
  have "wellTrimmed (processCurrentUtterance s')" if "wellTrimmed s'" for s'
    using that by (rule wellTrimmed_processCurrentUtterance)
  then show ?thesis using OnError w
    by (simp add: onerror_def wellTrimmed_def Let_def)
next
  case OnEnd
  assume w: "wellTrimmed s"
  have "wellTrimmed (processCurrentUtterance s')" if "wellTrimmed s'" for s'
    using that by (rule wellTrimmed_processCurrentUtterance)
  then show ?thesis using OnEnd w
    by (simp add: onend_def wellTrimmed_def Let_def split: option.split)
next
  case (StartListening outcome)
  show ?thesis using StartListening
    by (simp add: startListening_def wellTrimmed_def clearFinalizedUtterance_def
          initializeRecognition_def trim_Nil Let_def split: option.split start_outcome.split)
next
  case StopListening
  assume "wellTrimmed s" then show ?thesis using StopListening
    by (simp add: wellTrimmed_stopListening)
next
  case ClearFinalizedUtterance
  show ?thesis using ClearFinalizedUtterance
    by (simp add: clearFinalizedUtterance_def wellTrimmed_def trim_Nil)
next
  case EffectMount
  assume "wellTrimmed s" then show ?thesis using EffectMount
    by (simp add: effectMount_def initializeRecognition_def wellTrimmed_def)
next
  case EffectCleanup
  assume "wellTrimmed s" then show ?thesis using EffectCleanup
    by (simp add: effectCleanup_def clearTimeout_def wellTrimmed_def Let_def split: option.split)
next
  case (PermissionQuery st)
  assume "wellTrimmed s" then show ?thesis using PermissionQuery
    by (simp add: onPermissionQuery_def wellTrimmed_def Let_def)
next
  case (PermissionChange captured st)
  assume w: "wellTrimmed s"
  have "wellTrimmed (stopListeningWith c s')" if "wellTrimmed s'" for s' c
    using that by (rule wellTrimmed_stopListeningWith)
  then show ?thesis using PermissionChange w
    by (simp add: onPermissionChange_def wellTrimmed_def Let_def)
next
  case (Advance ms)
  assume w: "wellTrimmed s"
  have "wellTrimmed (s\<lparr>now := now s + ms\<rparr>)" using w by (simp add: wellTrimmed_def)
  then show ?thesis using Advance by (simp add: advance_def wellTrimmed_runDueTimers)
qed

lemma wellTrimmed_hook_run: "wellTrimmed s \<Longrightarrow> wellTrimmed (hook_run T evs s)"
  unfolding hook_run_def
  by (induction evs arbitrary: s) (simp_all add: wellTrimmed_hook_step)

lemma wellTrimmed_initial: "wellTrimmed (initial_state api)"
  by (simp add: wellTrimmed_def initial_state_def trim_Nil)

text \<open>
  Claim C10. In every state the hook reaches from its initial state, by any sequence of
  callbacks, user calls, effects, permission events and passages of time, the published
  \<open>finalizedUtterance\<close> is a string equal to its own whitespace trim (so it is either
  empty or a non-empty trimmed string); and \<open>clearFinalizedUtterance\<close> resets it to the
  empty string and changes no other part of the state.
\<close>

theorem finalizedUtterance_trimmed:
  "trim (finalizedUtterance (hook_run T evs (initial_state api)))
     = finalizedUtterance (hook_run T evs (initial_state api))
   \<and> clearFinalizedUtterance s = s\<lparr> finalizedUtterance := [] \<rparr>"
  using wellTrimmed_hook_run[OF wellTrimmed_initial, of T evs api]
  by (simp add: wellTrimmed_def clearFinalizedUtterance_def)

section \<open>Evaluating concrete runs\<close>

lemmas run_defs =
  app_run_def app_step_def afterRender_def finalizedUtteranceEffect_def
  handleToggleSession_def handleClearConversation_def initial_app_def
  hook_run_def initial_state_def onstart_def onresult_def onerror_def onend_def
  startListening_def stopListening_def stopListeningWith_def clearFinalizedUtterance_def
  processCurrentUtterance_def initializeRecognition_def effectMount_def effectCleanup_def
  onPermissionQuery_def onPermissionChange_def advance_def runDueTimers.simps
  setTimeout_def timerDelay_def clearTimeout_def batch_def finalSlot_def interimSlot_def
  trim_def isWhiteSpace_def newTurn_def toString.simps Let_def
  listeningState_def heardHello_def heardHow_def deniedState_def

lemmas batch_defs = onlyFinal_def finalText_def newSlots_def spoken_def feed.simps published.simps

section \<open>What a flush does\<close>

lemma published_append: "published (xs @ ys) = published xs @ published ys"
  by (induction xs rule: published.induct) simp_all

lemma startCalls_append: "startCalls (xs @ ys) = startCalls xs @ startCalls ys"
  by (induction xs rule: startCalls.induct) simp_all

lemma processCurrentUtterance_fields:
  "manualStopRef (processCurrentUtterance s) = manualStopRef s"
  "hasPermission (processCurrentUtterance s) = hasPermission s"
  "recognitionRef (processCurrentUtterance s) = recognitionRef s"
  "isListening (processCurrentUtterance s) = isListening s"
  "error (processCurrentUtterance s) = error s"
  "speechApiAvailable (processCurrentUtterance s) = speechApiAvailable s"
  "now (processCurrentUtterance s) = now s"
  "utteranceFinalizationTimeoutRef (processCurrentUtterance s) = None"
  "startCalls (trace (processCurrentUtterance s)) = startCalls (trace s)"
  by (simp_all add: processCurrentUtterance_def clearTimeout_def Let_def startCalls_append
        split: option.split)

lemma processCurrentUtterance_flush:
  "trim (currentUtteranceRef s) \<noteq> [] \<Longrightarrow>
     finalizedUtterance (processCurrentUtterance s) = trim (currentUtteranceRef s)
     \<and> currentUtteranceRef (processCurrentUtterance s) = []
     \<and> interimTranscript (processCurrentUtterance s) = []
     \<and> trace (processCurrentUtterance s) = trace s @ [Finalized (trim (currentUtteranceRef s))]"
  by (simp add: processCurrentUtterance_def clearTimeout_def Let_def split: option.split)

lemma processCurrentUtterance_discard:
  "trim (currentUtteranceRef s) = [] \<Longrightarrow>
     finalizedUtterance (processCurrentUtterance s) = finalizedUtterance s
     \<and> currentUtteranceRef (processCurrentUtterance s) = currentUtteranceRef s
     \<and> interimTranscript (processCurrentUtterance s) = interimTranscript s
     \<and> trace (processCurrentUtterance s) = trace s"
  by (simp add: processCurrentUtterance_def clearTimeout_def Let_def split: option.split)

lemma processCurrentUtterance_timers:
  "timers (processCurrentUtterance s) =
     filter (\<lambda>p. Some (fst p) \<noteq> utteranceFinalizationTimeoutRef s) (timers s)"
  by (simp add: processCurrentUtterance_def clearTimeout_def Let_def split: option.split)

section \<open>Stopping by hand\<close>

text \<open>
  Claim C5. When the accumulated final text trims to a non-empty string, \<open>stopListening\<close>
  finalizes it at once: the trimmed text becomes \<open>finalizedUtterance\<close> and is logged as
  published, the accumulation is emptied, the silence timer held in the reference is removed
  from the pending timers and the reference is cleared, and the clock has not moved. The
  manual-stop flag is set, and it is already set when \<open>stop()\<close> is called on the
  instance: the logged call carries the flag \<open>True\<close> and comes after the publication.
\<close>

theorem stopListening_flushes:
  assumes "trim (currentUtteranceRef s) \<noteq> []"
  shows "finalizedUtterance (stopListening s) = trim (currentUtteranceRef s)
    \<and> currentUtteranceRef (stopListening s) = []
    \<and> utteranceFinalizationTimeoutRef (stopListening s) = None
    \<and> timers (stopListening s)
        = filter (\<lambda>p. Some (fst p) \<noteq> utteranceFinalizationTimeoutRef s) (timers s)
    \<and> manualStopRef (stopListening s)
    \<and> now (stopListening s) = now s
    \<and> trace (stopListening s)
        = trace s @ [Finalized (trim (currentUtteranceRef s))]
            @ (case recognitionRef s of
                 None \<Rightarrow> []
               | Some h \<Rightarrow> if isListening s then [HandleStop h True] else [])"
proof -
  let ?s2 = "case utteranceFinalizationTimeoutRef (s\<lparr>manualStopRef := True\<rparr>) of
               None \<Rightarrow> s\<lparr>manualStopRef := True\<rparr>
             | Some t \<Rightarrow> (clearTimeout t (s\<lparr>manualStopRef := True\<rparr>))
                           \<lparr>utteranceFinalizationTimeoutRef := None\<rparr>"
  have cur: "currentUtteranceRef ?s2 = currentUtteranceRef s"
    and tr: "trace ?s2 = trace s"
    and ms: "manualStopRef ?s2"
    and rr: "recognitionRef ?s2 = recognitionRef s"
    and nw: "now ?s2 = now s"
    and rf: "utteranceFinalizationTimeoutRef ?s2 = None"
    and tm: "timers ?s2 = filter (\<lambda>p. Some (fst p) \<noteq> utteranceFinalizationTimeoutRef s) (timers s)"
    by (simp_all add: clearTimeout_def split: option.split)
  have ne: "trim (currentUtteranceRef ?s2) \<noteq> []" using assms cur by simp
  note fl = processCurrentUtterance_flush[OF ne]
  have tm3: "timers (processCurrentUtterance ?s2) = timers ?s2"
    by (simp only: processCurrentUtterance_timers rf) simp
  show ?thesis
    unfolding stopListening_def stopListeningWith_def Let_def
    using fl tm3 processCurrentUtterance_fields[of ?s2] cur tr ms rr nw tm
    by (simp split: option.split)
qed

text \<open>The same on the state that has heard \<open>" hello "\<close> with the timer still pending.\<close>

theorem stopListening_flushes_witness:
  "trim (currentUtteranceRef heardHello) \<noteq> []
   \<and> finalizedUtterance (stopListening heardHello) = ''hello''
   \<and> timers heardHello = [(TimerId 1, 1700)]
   \<and> timers (stopListening heardHello) = []
   \<and> trace (stopListening heardHello)
       = [HandleStart (Handle 0), Finalized ''hello'', HandleStop (Handle 0) True]"
proof -
  have h: "trim (currentUtteranceRef heardHello) \<noteq> []" by (simp add: run_defs batch_defs)
  have v: "trim (currentUtteranceRef heardHello) = ''hello''"
     "timers heardHello = [(TimerId 1, 1700)]"
     "utteranceFinalizationTimeoutRef heardHello = Some (TimerId 1)"
     "trace heardHello = [HandleStart (Handle 0)]"
     "recognitionRef heardHello = Some (Handle 0)" "isListening heardHello"
    by (simp_all add: run_defs batch_defs)
  from stopListening_flushes[OF h] show ?thesis
    by (simp add: v)
qed

section \<open>The end of a session\<close>

text \<open>
  Claim C4. One \<open>onend\<close> event makes exactly the \<open>start()\<close> calls given here: none
  when the manual-stop flag is set, and one, on the instance held in \<open>recognitionRef\<close>,
  when the flag is not set and the permission is not denied. It never makes more than one.
  After \<open>stopListening\<close>, which sets the flag, the end event makes none.
\<close>

theorem onend_restart_once:
  "startCalls (trace (onend s))
     = startCalls (trace s)
         @ (if \<not> manualStopRef s \<and> hasPermission s \<noteq> Some False
            then (case recognitionRef s of None \<Rightarrow> [] | Some h \<Rightarrow> [h]) else [])
   \<and> (manualStopRef s \<longrightarrow> startCalls (trace (onend s)) = startCalls (trace s))
   \<and> (\<not> manualStopRef s \<and> hasPermission s \<noteq> Some False \<and> recognitionRef s = Some h
        \<longrightarrow> startCalls (trace (onend s)) = startCalls (trace s) @ [h])
   \<and> length (startCalls (trace (onend s))) \<le> Suc (length (startCalls (trace s)))
   \<and> startCalls (trace (onend (stopListening s))) = startCalls (trace s)"
proof -
  have pf: "manualStopRef (processCurrentUtterance s') = manualStopRef s'"
           "hasPermission (processCurrentUtterance s') = hasPermission s'"
           "recognitionRef (processCurrentUtterance s') = recognitionRef s'"
           "startCalls (trace (processCurrentUtterance s')) = startCalls (trace s')" for s'
    by (rule processCurrentUtterance_fields)+
  have main: "startCalls (trace (onend s'))
     = startCalls (trace s')
         @ (if \<not> manualStopRef s' \<and> hasPermission s' \<noteq> Some False
            then (case recognitionRef s' of None \<Rightarrow> [] | Some h \<Rightarrow> [h]) else [])" for s'
    by (simp add: onend_def Let_def pf startCalls_append split: option.split)
  have stop: "manualStopRef (stopListening s)"
    "startCalls (trace (stopListening s)) = startCalls (trace s)"
    by (simp_all add: stopListening_def stopListeningWith_def Let_def pf startCalls_append clearTimeout_def
          split: option.split)
  show ?thesis
    using main[of s] main[of "stopListening s"] stop
    by (auto split: option.split)
qed

text \<open>On the listening state the end event restarts the instance once; after a manual stop
  it does not.\<close>

theorem onend_restart_once_witness:
  "\<not> manualStopRef heardHello \<and> hasPermission heardHello \<noteq> Some False
   \<and> recognitionRef heardHello = Some (Handle 0)
   \<and> startCalls (trace (onend heardHello)) = startCalls (trace heardHello) @ [Handle 0]
   \<and> startCalls (trace (onend (stopListening heardHello))) = startCalls (trace heardHello)"
proof -
  have h: "\<not> manualStopRef heardHello \<and> hasPermission heardHello \<noteq> Some False
           \<and> recognitionRef heardHello = Some (Handle 0)"
    by (simp add: run_defs batch_defs)
  from onend_restart_once[of heardHello "Handle 0"] h show ?thesis by blast
qed

section \<open>Batches of empty final results\<close>

lemma collect_empty_finals:
  "list_all (\<lambda>r. isFinal r \<and> transcript r = []) rs \<Longrightarrow> collect rs acc = acc"
  by (induction rs acc rule: collect.induct) simp_all

text \<open>
  Claim C3, as the code has it. A batch whose new slots are all final with the empty
  transcript sets \<open>interimTranscript\<close> to the empty string and changes nothing else: the
  accumulated text stays, and the silence timer is neither armed nor cancelled, because the
  guard \<open>if (interim || finalSegmentThisEvent)\<close> fails on two empty strings.
\<close>

theorem onresult_empty_finals:
  assumes "list_all (\<lambda>r. isFinal r \<and> transcript r = []) (newSlots ev)"
  shows "onresult T ev s = s\<lparr> interimTranscript := [] \<rparr>"
  using collect_empty_finals[OF assms[unfolded newSlots_def], of "([], [])"]
  by (simp add: onresult_def)

theorem onresult_empty_finals_witness:
  "list_all (\<lambda>r. isFinal r \<and> transcript r = []) (newSlots (batch 1 [interimSlot ''how'', finalSlot []]))
   \<and> onresult 1500 (batch 1 [interimSlot ''how'', finalSlot []]) heardHow
       = heardHow\<lparr> interimTranscript := [] \<rparr>"
proof -
  have h: "list_all (\<lambda>r. isFinal r \<and> transcript r = [])
             (newSlots (batch 1 [interimSlot ''how'', finalSlot []]))"
    by (simp add: newSlots_def batch_def finalSlot_def)
  from onresult_empty_finals[OF h] h show ?thesis by blast
qed

text \<open>
  The claim as stated fails. 1000 ms after the interim fragment \<open>"how"\<close> such a batch
  empties the displayed interim transcript, and the timer armed at 200 ms keeps its deadline
  1700 (a timer armed by the batch would be due at 2700). On the listening state, where no
  timer is pending, the batch arms none.
\<close>

theorem onresult_empty_finals_counterexample:
  "interimTranscript (advance 1000 heardHow) = ''how''
   \<and> timers (advance 1000 heardHow) = [(TimerId 1, 1700)]
   \<and> now (advance 1000 heardHow) = 1200
   \<and> interimTranscript
        (onresult 1500 (batch 1 [interimSlot ''how'', finalSlot []]) (advance 1000 heardHow)) = []
   \<and> timers (onresult 1500 (batch 1 [interimSlot ''how'', finalSlot []]) (advance 1000 heardHow))
        = [(TimerId 1, 1700)]
   \<and> timers (onresult 1500 (batch 0 [finalSlot []]) listeningState) = []
   \<and> utteranceFinalizationTimeoutRef (onresult 1500 (batch 0 [finalSlot []]) listeningState)
        = None"
  by (simp add: run_defs batch_defs)

section \<open>Starting while listening or while denied\<close>

text \<open>
  Claim C2, as the code has it. \<open>startListening\<close> called while listening, or while the
  permission is denied, calls neither \<open>start()\<close> nor anything else on the outside, and
  leaves \<open>isListening\<close> and the silence timer as they are. While denied and not
  listening, with an instance at hand or creatable, it surfaces the permission error. But it
  is not a no-op: before its guards it empties the accumulated final text, the interim
  transcript and the finalized utterance, and resets the manual-stop flag.
\<close>

theorem startListening_guarded:
  assumes "isListening s \<or> hasPermission s = Some False"
  shows "trace (startListening outcome s) = trace s
    \<and> isListening (startListening outcome s) = isListening s
    \<and> timers (startListening outcome s) = timers s
    \<and> utteranceFinalizationTimeoutRef (startListening outcome s)
        = utteranceFinalizationTimeoutRef s
    \<and> currentUtteranceRef (startListening outcome s) = []
    \<and> interimTranscript (startListening outcome s) = []
    \<and> finalizedUtterance (startListening outcome s) = []
    \<and> \<not> manualStopRef (startListening outcome s)
    \<and> (hasPermission s = Some False \<longrightarrow> hasPermission (startListening outcome s) = Some False)
    \<and> (hasPermission s = Some False \<and> \<not> isListening s
         \<and> (recognitionRef s \<noteq> None \<or> speechApiAvailable s)
        \<longrightarrow> error (startListening outcome s)
              = Some ''Cannot start listening: Microphone permission was denied.'')
    \<and> (isListening s \<and> recognitionRef s \<noteq> None
        \<longrightarrow> error (startListening outcome s) = error s
            \<and> hasPermission (startListening outcome s) = hasPermission s)"
  using assms
  by (auto simp: startListening_def clearFinalizedUtterance_def initializeRecognition_def Let_def
           split: option.split)

theorem startListening_guarded_witness:
  "(isListening heardHello \<or> hasPermission heardHello = Some False)
   \<and> trace (startListening Started heardHello) = trace heardHello
   \<and> currentUtteranceRef (startListening Started heardHello) = []
   \<and> (isListening deniedState \<or> hasPermission deniedState = Some False)
   \<and> hasPermission deniedState = Some False \<and> \<not> isListening deniedState
   \<and> speechApiAvailable deniedState
   \<and> error (startListening Started deniedState)
        = Some ''Cannot start listening: Microphone permission was denied.''"
proof -
  have h1: "isListening heardHello \<or> hasPermission heardHello = Some False" by (simp add: run_defs batch_defs)
  have h2: "hasPermission deniedState = Some False \<and> \<not> isListening deniedState
            \<and> speechApiAvailable deniedState"
    by (simp add: run_defs batch_defs)
  then have h3: "isListening deniedState \<or> hasPermission deniedState = Some False" by blast
  from startListening_guarded[OF h1, of Started] startListening_guarded[OF h3, of Started] h1 h2 h3
  show ?thesis by blast
qed

text \<open>
  The claim as stated fails: a start while listening discards the accumulated
  \<open>" hello "\<close>; a start while denied resets the manual-stop flag that the
  \<open>not-allowed\<close> error had set and discards the utterance it had published.
\<close>

theorem startListening_guarded_counterexample:
  "isListening heardHello
   \<and> currentUtteranceRef heardHello = '' hello ''
   \<and> currentUtteranceRef (startListening Started heardHello) = []
   \<and> hasPermission deniedState = Some False
   \<and> manualStopRef deniedState
   \<and> finalizedUtterance deniedState = ''hello''
   \<and> \<not> manualStopRef (startListening Started deniedState)
   \<and> finalizedUtterance (startListening Started deniedState) = []"
  by (simp add: run_defs batch_defs)

section \<open>Stream updates are keyed by the turn id\<close>

lemma touchesOnly_map:
  "(\<And>turn. turn_id (f turn) = turn_id turn \<and> utterance (f turn) = utterance turn) \<Longrightarrow>
   touchesOnly tid conv (map (\<lambda>turn. if turn_id turn = tid then f turn else turn) conv)"
  unfolding touchesOnly_def
  by (induction conv) simp_all

lemma touchesOnly_refl: "touchesOnly tid conv conv"
  unfolding touchesOnly_def by (induction conv) simp_all

lemma touchesOnly_trans:
  "touchesOnly tid a b \<Longrightarrow> touchesOnly tid b c \<Longrightarrow> touchesOnly tid a c"
  unfolding touchesOnly_def
  by (erule list_all2_trans[rotated], assumption) (auto split: if_splits)

lemma touchesOnly_appendChunk: "touchesOnly tid conv (appendChunk tid txt conv)"
  unfolding appendChunk_def by (rule touchesOnly_map) simp

lemma touchesOnly_onChunk: "touchesOnly tid conv (onChunk tid chunk conv)"
  by (cases chunk) (simp_all add: touchesOnly_refl touchesOnly_appendChunk)

lemma touchesOnly_streamFailed: "touchesOnly tid conv (streamFailed tid m conv)"
  unfolding streamFailed_def by (rule touchesOnly_map) simp

lemma touchesOnly_streamFinally: "touchesOnly tid conv (streamFinally tid conv)"
  unfolding streamFinally_def by (rule touchesOnly_map) simp

lemma own_step:
  "conversation (app_step T a (StreamChunk tid chunk)) = onChunk tid chunk (conversation a)"
  "conversation (app_step T a (StreamThrew tid err))
     = streamFailed tid (errorMessageOf err) (conversation a)"
  "conversation (app_step T a (StreamFinally tid)) = streamFinally tid (conversation a)"
  by (simp_all add: app_step_def afterRender_def)

lemma touchesOnly_own_step:
  "ownUpdate tid ev \<Longrightarrow> touchesOnly tid (conversation a) (conversation (app_step T a ev))"
  by (cases ev)
     (simp_all add: own_step touchesOnly_onChunk touchesOnly_streamFailed
        touchesOnly_streamFinally)

lemma touchesOnly_own_run:
  "list_all (ownUpdate tid) us \<Longrightarrow>
     touchesOnly tid (conversation a) (conversation (app_run T us a))"
proof (induction us arbitrary: a)
  case Nil
  show ?case by (simp add: app_run_def touchesOnly_refl)
next
  case (Cons ev us)
  from Cons.prems have ev: "ownUpdate tid ev" and rest: "list_all (ownUpdate tid) us"
    by simp_all
  from touchesOnly_trans[OF touchesOnly_own_step[OF ev] Cons.IH[OF rest]]
  show ?case by (simp add: app_run_def)
qed

lemma processStream_own: "list_all (ownUpdate tid) (processStream tid chunks ending)"
  by (cases ending) (simp_all add: processStream_def list_all_iff)

lemma touchesOnly_processStream:
  "touchesOnly tid (conversation a) (conversation (app_run T (processStream tid chunks ending) a))"
  by (rule touchesOnly_own_run[OF processStream_own])

text \<open>
  Claim C9. Each update of the answer stream (a chunk, the error, the final flag, and so the
  whole of \<open>processStream\<close>) keeps the conversation's turns in place, keeps the id and the
  utterance of every turn, and leaves unchanged every turn whose id differs from the
  captured id. The id of a turn is the decimal rendering of the clock at its creation, so two
  turns created in the same millisecond have the same id, and an update sent for one of them
  changes both in the same way.
\<close>

theorem stream_updates_keyed_by_id:
  "touchesOnly tid conv (onChunk tid chunk conv)
   \<and> touchesOnly tid conv (streamFailed tid message conv)
   \<and> touchesOnly tid conv (streamFinally tid conv)
   \<and> touchesOnly tid (conversation a)
        (conversation (app_run T (processStream tid chunks ending) a))
   \<and> turn_id (newTurn t u) = toString t
   \<and> turn_id (newTurn t u) = turn_id (newTurn t u')
   \<and> appendChunk (turn_id (newTurn t u)) textChunk (prev @ [newTurn t u, newTurn t u'])
       = appendChunk (turn_id (newTurn t u)) textChunk prev
         @ [(newTurn t u)\<lparr> answer := Some textChunk \<rparr>,
            (newTurn t u')\<lparr> answer := Some textChunk \<rparr>]
   \<and> streamFailed (turn_id (newTurn t u)) message (prev @ [newTurn t u, newTurn t u'])
       = streamFailed (turn_id (newTurn t u)) message prev
         @ [(newTurn t u)\<lparr> answerError := Some message, isProcessingAnswer := False \<rparr>,
            (newTurn t u')\<lparr> answerError := Some message, isProcessingAnswer := False \<rparr>]
   \<and> streamFinally (turn_id (newTurn t u)) (prev @ [newTurn t u, newTurn t u'])
       = streamFinally (turn_id (newTurn t u)) prev
         @ [(newTurn t u)\<lparr> isProcessingAnswer := False \<rparr>,
            (newTurn t u')\<lparr> isProcessingAnswer := False \<rparr>]"
  by (simp add: touchesOnly_onChunk touchesOnly_streamFailed touchesOnly_streamFinally
        touchesOnly_processStream)
     (simp add: newTurn_def appendChunk_def streamFailed_def streamFinally_def)

text \<open>In the run with two finalizations in one millisecond both turns get the id
  \<open>"1234"\<close>, and a chunk of the first turn's stream lands in both answers.\<close>

theorem stream_updates_keyed_by_id_witness:
  "conversation sameMillisecond = [] @ [newTurn 1234 ''first'', newTurn 1234 ''second'']
   \<and> conversation (app_step 1500 sameMillisecond
         (StreamChunk (turn_id (newTurn 1234 ''first'')) (Some ''Par'')))
       = [(newTurn 1234 ''first'')\<lparr> answer := Some ''Par'' \<rparr>,
          (newTurn 1234 ''second'')\<lparr> answer := Some ''Par'' \<rparr>]"
proof -
  have a: "conversation sameMillisecond = [] @ [newTurn 1234 ''first'', newTurn 1234 ''second'']"
    by (simp add: run_defs sameMillisecond_def)
  have b: "conversation (app_step 1500 sameMillisecond (StreamChunk tid (Some ''Par'')))
             = appendChunk tid ''Par'' (conversation sameMillisecond)" for tid
    by (simp add: app_step_def afterRender_def)
  have c: "appendChunk (turn_id (newTurn 1234 ''first'')) ''Par''
             ([] @ [newTurn 1234 ''first'', newTurn 1234 ''second''])
           = appendChunk (turn_id (newTurn 1234 ''first'')) ''Par'' []
             @ [(newTurn 1234 ''first'')\<lparr> answer := Some ''Par'' \<rparr>,
                (newTurn 1234 ''second'')\<lparr> answer := Some ''Par'' \<rparr>]"
    using stream_updates_keyed_by_id[where t = 1234 and u = "''first''" and u' = "''second''"
            and textChunk = "''Par''" and prev = "[]"]
    by blast
  have d: "appendChunk tid ''Par'' [] = []" for tid by (simp add: appendChunk_def)
  show ?thesis
    apply (simp only: b a)
    apply (simp only: c d)
    apply simp
    done
qed


section \<open>Toggling the session\<close>

lemma toggle_creates_no_turn:
  "conversation (app_step T a (ToggleSession outcome)) = conversation a"
proof -
  have "finalizedUtterance (startListening outcome s) = []" for s
    by (simp add: startListening_def clearFinalizedUtterance_def initializeRecognition_def Let_def
          split: option.split start_outcome.split)
  then show ?thesis
    by (simp add: app_step_def afterRender_def finalizedUtteranceEffect_def
          handleToggleSession_def Let_def)
qed

section \<open>Folding an answer stream into its turn\<close>

lemma newTurn_updated:
  "(newTurn t u)\<lparr> answer := Some txt, isProcessingAnswer := False \<rparr>
     = \<lparr> turn_id = toString t, utterance = u, answer = Some txt,
         answerError = None, isProcessingAnswer = False \<rparr>"
  "(newTurn t u)\<lparr> answer := Some txt, answerError := Some m, isProcessingAnswer := False \<rparr>
     = \<lparr> turn_id = toString t, utterance = u, answer = Some txt,
         answerError = Some m, isProcessingAnswer = False \<rparr>"
  by (simp_all add: newTurn_def)

lemma touchesOnly_nth:
  assumes "touchesOnly i conv conv'" and "k < length conv" and "turn_id (conv ! k) \<noteq> i"
  shows "k < length conv' \<and> conv' ! k = conv ! k"
proof -
  from assms(1) have len: "length conv = length conv'"
    unfolding touchesOnly_def by (rule list_all2_lengthD)
  from assms(1,2) have "turn_id (conv' ! k) = turn_id (conv ! k)
      \<and> utterance (conv' ! k) = utterance (conv ! k)
      \<and> (if turn_id (conv ! k) = i then True else conv' ! k = conv ! k)"
    unfolding touchesOnly_def by (rule list_all2_nthD)
  with assms(2,3) len show ?thesis by simp
qed

lemma afterRender_keeps:
  "k < length (conversation a') \<Longrightarrow>
     k < length (conversation (afterRender a a'))
     \<and> conversation (afterRender a a') ! k = conversation a' ! k"
  by (simp add: afterRender_def finalizedUtteranceEffect_def nth_append)

lemma foreign_step:
  assumes "foreignTo tid ev" and "k < length (conversation a)"
    and "turn_id (conversation a ! k) = tid"
  shows "k < length (conversation (app_step T a ev))
    \<and> conversation (app_step T a ev) ! k = conversation a ! k"
proof (cases ev)
  case (Hook hev)
  have "conversation (app_handle T a ev) = conversation a" by (simp add: Hook)
  with afterRender_keeps[of k "app_handle T a ev" a] assms(2) show ?thesis
    by (simp add: app_step_def)
next
  case (ApiKeyChecked ok)
  have "conversation (app_handle T a ev) = conversation a" by (simp add: ApiKeyChecked)
  with afterRender_keeps[of k "app_handle T a ev" a] assms(2) show ?thesis
    by (simp add: app_step_def)
next
  case (ToggleSession outcome)
  then show ?thesis using assms(2) by (simp add: toggle_creates_no_turn)
next
  case (ClearConversation confirmed)
  with assms(1) have "conversation (app_handle T a ev) = conversation a"
    by (simp add: handleClearConversation_def)
  with afterRender_keeps[of k "app_handle T a ev" a] assms(2) show ?thesis
    by (simp add: app_step_def)
next
  case (StreamChunk i chunk)
  with assms(1,3) have "turn_id (conversation a ! k) \<noteq> i" by simp
  from touchesOnly_nth[OF touchesOnly_onChunk assms(2) this, of chunk] show ?thesis
    by (simp add: StreamChunk own_step)
next
  case (StreamThrew i err)
  with assms(1,3) have "turn_id (conversation a ! k) \<noteq> i" by simp
  from touchesOnly_nth[OF touchesOnly_streamFailed assms(2) this, of "errorMessageOf err"]
  show ?thesis by (simp add: StreamThrew own_step)
next
  case (StreamFinally i)
  with assms(1,3) have "turn_id (conversation a ! k) \<noteq> i" by simp
  from touchesOnly_nth[OF touchesOnly_streamFinally assms(2) this] show ?thesis
    by (simp add: StreamFinally own_step)
qed

lemma foreign_run:
  assumes "list_all (foreignTo tid) g" and "k < length (conversation a)"
    and "turn_id (conversation a ! k) = tid"
  shows "k < length (conversation (app_run T g a))
    \<and> conversation (app_run T g a) ! k = conversation a ! k"
  using assms
proof (induction g arbitrary: a)
  case Nil
  then show ?case by (simp add: app_run_def)
next
  case (Cons ev g)
  from Cons.prems have ev: "foreignTo tid ev" and rest: "list_all (foreignTo tid) g"
    by simp_all
  note st = foreign_step[OF ev Cons.prems(2,3), of T]
  from st Cons.prems(3) have id: "turn_id (conversation (app_step T a ev) ! k) = tid" by simp
  from st have len: "k < length (conversation (app_step T a ev))" by blast
  from Cons.IH[OF rest len id] st show ?case by (simp add: app_run_def)
qed

lemma turn_id_turnUpdate: "turn_id (turnUpdate turn ev) = turn_id turn"
  by (cases "(turn, ev)" rule: turnUpdate.cases) simp_all

lemma own_update_nth:
  assumes "ownUpdate tid ev" and "k < length (conversation a)"
    and "turn_id (conversation a ! k) = tid"
  shows "k < length (conversation (app_step T a ev))
    \<and> conversation (app_step T a ev) ! k = turnUpdate (conversation a ! k) ev"
proof (cases ev)
  case (StreamChunk i chunk)
  with assms(1) have i: "i = tid" by simp
  show ?thesis
  proof (cases chunk)
    case None
    then show ?thesis using assms(2) by (simp add: StreamChunk own_step)
  next
    case (Some textChunk)
    then show ?thesis using assms(2,3) i
      by (simp add: StreamChunk own_step appendChunk_def)
  qed
next
  case (StreamThrew i err)
  with assms(1) have "i = tid" by simp
  then show ?thesis using assms(2,3) by (simp add: StreamThrew own_step streamFailed_def)
next
  case (StreamFinally i)
  with assms(1) have "i = tid" by simp
  then show ?thesis using assms(2,3) by (simp add: StreamFinally own_step streamFinally_def)
qed (use assms(1) in simp_all)

lemma app_run_append: "app_run T (xs @ ys) a = app_run T ys (app_run T xs a)"
  by (simp add: app_run_def)

lemma app_run_Cons: "app_run T (ev # evs) a = app_run T evs (app_step T a ev)"
  by (simp add: app_run_def)

lemma weave_run:
  assumes "list_all (ownUpdate tid) us" and "list_all (list_all (foreignTo tid)) gaps"
    and "k < length (conversation a)" and "turn_id (conversation a ! k) = tid"
  shows "k < length (conversation (app_run T (weave us gaps) a))
    \<and> conversation (app_run T (weave us gaps) a) ! k = foldl turnUpdate (conversation a ! k) us"
  using assms
proof (induction us gaps arbitrary: a rule: weave.induct)
  case (1 gaps)
  from "1.prems"(2) have "list_all (foreignTo tid) (concat gaps)"
    by (auto simp: list_all_iff)
  from foreign_run[OF this "1.prems"(3,4)] show ?case by simp
next
  case (2 u us)
  from "2.prems"(1) have u: "ownUpdate tid u" and rest: "list_all (ownUpdate tid) us"
    by simp_all
  note st = own_update_nth[OF u "2.prems"(3,4), of T]
  from st have len: "k < length (conversation (app_step T a u))" by blast
  from st "2.prems"(4) have id: "turn_id (conversation (app_step T a u) ! k) = tid"
    by (simp add: turn_id_turnUpdate)
  have g: "list_all (list_all (foreignTo tid)) []" by simp
  from "2.IH"[OF rest g len id] st show ?case by (simp add: app_run_Cons)
next
  case (3 u us g gaps)
  from "3.prems"(1) have u: "ownUpdate tid u" and rest: "list_all (ownUpdate tid) us"
    by simp_all
  from "3.prems"(2) have g: "list_all (foreignTo tid) g"
    and gs: "list_all (list_all (foreignTo tid)) gaps" by simp_all
  let ?a1 = "app_run T g a"
  note fr = foreign_run[OF g "3.prems"(3,4), of T]
  from fr have len1: "k < length (conversation ?a1)" by blast
  from fr "3.prems"(4) have id1: "turn_id (conversation ?a1 ! k) = tid" by simp
  note st = own_update_nth[OF u len1 id1, of T]
  from st have len2: "k < length (conversation (app_step T ?a1 u))" by blast
  from st id1 have id2: "turn_id (conversation (app_step T ?a1 u) ! k) = tid"
    by (simp add: turn_id_turnUpdate)
  from "3.IH"[OF rest gs len2 id2] st fr show ?case
    by (simp add: app_run_append app_run_Cons)
qed

lemma foldl_chunks:
  "answer x = Some sofar \<Longrightarrow>
     foldl turnUpdate x (map (StreamChunk tid) chunks)
       = x\<lparr> answer := Some (sofar @ fragmentsText chunks) \<rparr>"
proof (induction chunks arbitrary: x sofar)
  case Nil
  then show ?case by (simp add: fragmentsText_def)
next
  case (Cons c cs)
  show ?case
  proof (cases c)
    case None
    with Cons.IH[OF Cons.prems] show ?thesis by (simp add: fragmentsText_def)
  next
    case (Some t)
    let ?x' = "x\<lparr> answer := Some (sofar @ t) \<rparr>"
    have step: "turnUpdate x (StreamChunk tid c) = ?x'"
      using Cons.prems Some by (cases "t = []") simp_all
    have "answer ?x' = Some (sofar @ t)" by simp
    from Cons.IH[OF this] step Some show ?thesis by (simp add: fragmentsText_def)
  qed
qed

lemma foldl_processStream:
  "foldl turnUpdate (newTurn t u) (processStream tid chunks ending)
     = \<lparr> turn_id = toString t, utterance = u, answer = Some (fragmentsText chunks),
         answerError = (case ending of Completed \<Rightarrow> None
                        | Threw err \<Rightarrow> Some (errorMessageOf err)),
         isProcessingAnswer = False \<rparr>"
proof -
  have an: "answer (newTurn t u) = Some []" by (simp add: newTurn_def)
  from foldl_chunks[OF an, of tid chunks] show ?thesis
    by (cases ending) (simp_all add: processStream_def newTurn_updated)
qed

text \<open>
  Claim C8, as the code has it. A turn has just been created and is in the conversation.
  Its stream yields chunks and then completes or throws; the updates these cause arrive one
  by one, and between them anything may happen that is foreign to the turn's id: no update
  of another stream sent under the same id, and no clearing of the conversation. Then after
  the last update the turn's answer is the text of the fragments joined in yield order and
  \<open>isProcessingAnswer\<close> is false; \<open>answerError\<close> is null when the stream completed, and
  the error's message when it threw, with the fragments appended before still in the
  answer. The fragments \<open>"Par"\<close> and \<open>"is"\<close> followed by completion give the answer
  \<open>"Paris"\<close>. One fragment is appended to the answer so far, it does not replace it.
\<close>

theorem processStream_answer:
  assumes "k < length (conversation a)" and "conversation a ! k = newTurn t u"
    and "list_all (list_all (foreignTo (toString t))) gaps"
  shows "conversation (app_run T (weave (processStream (toString t) chunks Completed) gaps) a) ! k
     = \<lparr> turn_id = toString t, utterance = u, answer = Some (fragmentsText chunks),
         answerError = None, isProcessingAnswer = False \<rparr>
   \<and> conversation (app_run T (weave (processStream (toString t) chunks (Threw err)) gaps) a) ! k
     = \<lparr> turn_id = toString t, utterance = u, answer = Some (fragmentsText chunks),
         answerError = Some (errorMessageOf err), isProcessingAnswer = False \<rparr>
   \<and> conversation (app_run T
         (weave (processStream (toString t) [Some ''Par'', Some ''is''] Completed) gaps) a) ! k
     = \<lparr> turn_id = toString t, utterance = u, answer = Some ''Paris'',
         answerError = None, isProcessingAnswer = False \<rparr>
   \<and> appendChunk (toString t) textChunk [(newTurn t u)\<lparr> answer := Some sofar \<rparr>]
     = [(newTurn t u)\<lparr> answer := Some (sofar @ textChunk) \<rparr>]"
proof -
  have id: "turn_id (conversation a ! k) = toString t"
    by (simp add: assms(2) newTurn_def)
  have run: "conversation (app_run T (weave (processStream (toString t) cs ending) gaps) a) ! k
     = \<lparr> turn_id = toString t, utterance = u, answer = Some (fragmentsText cs),
         answerError = (case ending of Completed \<Rightarrow> None
                        | Threw err \<Rightarrow> Some (errorMessageOf err)),
         isProcessingAnswer = False \<rparr>" for cs ending
    using weave_run[OF processStream_own[of "toString t" cs ending] assms(3,1) id, of T]
    by (simp add: assms(2) foldl_processStream)
  have paris: "fragmentsText [Some ''Par'', Some ''is''] = ''Paris''"
    by (simp add: fragmentsText_def)
  have app: "appendChunk (toString t) textChunk [(newTurn t u)\<lparr> answer := Some sofar \<rparr>]
     = [(newTurn t u)\<lparr> answer := Some (sofar @ textChunk) \<rparr>]"
    by (simp add: appendChunk_def newTurn_def)
  from run[of chunks Completed] run[of chunks "Threw err"]
       run[of "[Some ''Par'', Some ''is'']" Completed] app
  show ?thesis by (simp add: paris)
qed

text \<open>
  The turn of \<open>askedCapital\<close>, then its stream, with time passing, an update of another
  stream and a declined clearing in between: completed, with chunks that carry no text, and
  failed with the error of the streaming client.
\<close>

theorem processStream_answer_witness:
  "(0::nat) < length (conversation askedCapital)
   \<and> conversation askedCapital ! 0 = newTurn 2734 ''capital of France''
   \<and> list_all (list_all (foreignTo (toString 2734)))
        [[Hook (Advance 40)], [StreamChunk ''999'' (Some ''x''), ClearConversation False]]
   \<and> conversation (app_run 1500
        (weave (processStream (toString 2734) [Some ''Par'', None, Some [], Some ''is''] Completed)
           [[Hook (Advance 40)], [StreamChunk ''999'' (Some ''x''), ClearConversation False]])
        askedCapital) ! 0
     = \<lparr> turn_id = ''2734'', utterance = ''capital of France'', answer = Some ''Paris'',
         answerError = None, isProcessingAnswer = False \<rparr>
   \<and> conversation (app_run 1500
        (weave (processStream (toString 2734) [Some ''Par'']
                  (Threw (generateAnswerStreamError (ErrorObject ''quota''))))
           [[Hook (Advance 40)], [StreamChunk ''999'' (Some ''x''), ClearConversation False]])
        askedCapital) ! 0
     = \<lparr> turn_id = ''2734'', utterance = ''capital of France'', answer = Some ''Par'',
         answerError = Some ''Gemini API stream error: quota'', isProcessingAnswer = False \<rparr>"
proof -
  have h1: "(0::nat) < length (conversation askedCapital)"
    and h2: "conversation askedCapital ! 0 = newTurn 2734 ''capital of France''"
    by (simp_all add: run_defs askedCapital_def)
  have v: "toString 2734 = ''2734''"
    "fragmentsText [Some ''Par'', None, Some [], Some ''is''] = ''Paris''"
    "fragmentsText [Some ''Par''] = ''Par''"
    "errorMessageOf (generateAnswerStreamError (ErrorObject ''quota''))
       = ''Gemini API stream error: quota''"
    by (simp_all add: toString.simps fragmentsText_def)
  have h3: "list_all (list_all (foreignTo (toString 2734)))
        [[Hook (Advance 40)], [StreamChunk ''999'' (Some ''x''), ClearConversation False]]"
    by (simp add: v)
  from processStream_answer[OF h1 h2 h3, of 1500 "[Some ''Par'', None, Some [], Some ''is'']"
         "generateAnswerStreamError (ErrorObject ''quota'')"]
       processStream_answer[OF h1 h2 h3, of 1500 "[Some ''Par'']"
         "generateAnswerStreamError (ErrorObject ''quota'')"]
  show ?thesis using h1 h2 h3 by (simp add: v)
qed

text \<open>
  The claim as stated fails when another stream runs under the same id. In
  \<open>sameMillisecond\<close> the two turns share the id \<open>"1234"\<close>. The stream of the first
  yields \<open>"Par"\<close> and \<open>"is"\<close> and completes; the stream of the second yields
  \<open>"Lon"\<close> and \<open>"don"\<close> in between. The answer of the first turn is then not
  \<open>"Paris"\<close>.
\<close>

theorem processStream_answer_counterexample:
  "conversation sameMillisecond ! 0 = newTurn 1234 ''first''
   \<and> answer (conversation (app_run 1500
        (weave (processStream ''1234'' [Some ''Par'', Some ''is''] Completed)
           [[], [StreamChunk ''1234'' (Some ''Lon'')], [StreamChunk ''1234'' (Some ''don'')],
            [StreamFinally ''1234'']])
        sameMillisecond) ! 0)
     = Some ''ParLonisdon''"
  by (simp add: run_defs sameMillisecond_def processStream_def appendChunk_def
        streamFinally_def)

section \<open>One utterance per silence\<close>

lemma collect_split:
  "collect rs (i, f) =
     (i @ concat (map transcript (filter (\<lambda>r. \<not> isFinal r) rs)),
      f @ concat (map transcript (filter isFinal rs)))"
  by (induction rs arbitrary: i f) simp_all

lemma collect_onlyFinal:
  "onlyFinal b \<Longrightarrow> collect (drop (resultIndex b) (results b)) ([], []) = ([], finalText b)"
proof -
  assume "onlyFinal b"
  then have "filter (\<lambda>r. \<not> isFinal r) (newSlots b) = []"
    by (simp add: onlyFinal_def list_all_iff filter_empty_conv)
  then show ?thesis
    by (simp add: collect_split finalText_def newSlots_def)
qed

lemma published_processCurrentUtterance:
  "published (trace (processCurrentUtterance s))
     = published (trace s)
       @ (if trim (currentUtteranceRef s) = [] then [] else [trim (currentUtteranceRef s)])"
  by (simp add: processCurrentUtterance_def clearTimeout_def Let_def published_append
        split: option.split)

lemma published_stopListening:
  "published (trace (stopListening s))
     = published (trace s)
       @ (if trim (currentUtteranceRef s) = [] then [] else [trim (currentUtteranceRef s)])"
proof -
  let ?s2 = "case utteranceFinalizationTimeoutRef (s\<lparr>manualStopRef := True\<rparr>) of
               None \<Rightarrow> s\<lparr>manualStopRef := True\<rparr>
             | Some t \<Rightarrow> (clearTimeout t (s\<lparr>manualStopRef := True\<rparr>))
                           \<lparr>utteranceFinalizationTimeoutRef := None\<rparr>"
  have cur: "currentUtteranceRef ?s2 = currentUtteranceRef s" and tr: "trace ?s2 = trace s"
    by (simp_all add: clearTimeout_def split: option.split)
  show ?thesis
    unfolding stopListening_def stopListeningWith_def Let_def
    using published_processCurrentUtterance[of ?s2] cur tr
    by (simp add: published_append split: option.split)
qed

lemma stop_publishes_trim:
  assumes "trim (currentUtteranceRef s) \<noteq> []"
  shows "finalizedUtterance (stopListening s) = trim (currentUtteranceRef s)"
proof -
  let ?s2 = "case utteranceFinalizationTimeoutRef (s\<lparr>manualStopRef := True\<rparr>) of
               None \<Rightarrow> s\<lparr>manualStopRef := True\<rparr>
             | Some t \<Rightarrow> (clearTimeout t (s\<lparr>manualStopRef := True\<rparr>))
                           \<lparr>utteranceFinalizationTimeoutRef := None\<rparr>"
  have cur: "currentUtteranceRef ?s2 = currentUtteranceRef s"
    by (simp add: clearTimeout_def split: option.split)
  then have "trim (currentUtteranceRef ?s2) \<noteq> []" using assms by simp
  from processCurrentUtterance_flush[OF this] cur show ?thesis
    unfolding stopListening_def stopListeningWith_def Let_def by (simp split: option.split)
qed

lemma timerDelay_small: "T < 2147483648 \<Longrightarrow> timerDelay T = T"
  unfolding timerDelay_def Let_def
proof -
  assume small: "T < 2147483648"
  then have "T mod 4294967296 = T" by (intro mod_less) linarith
  then show "(if T mod 4294967296 < 2147483648 then T mod 4294967296 else 0) = T"
    using small by (simp only: if_True)
qed

lemma whitespace_only:
  assumes "trim a = []"
  shows "\<forall>x\<in>set a. isWhiteSpace x"
proof (cases "dropWhile isWhiteSpace a")
  case Nil
  then show ?thesis by (simp add: dropWhile_eq_Nil_conv)
next
  case (Cons c cs)
  then have nc: "\<not> isWhiteSpace c"
    by (metis hd_dropWhile list.sel(1) list.distinct(1))
  from stripEnd_hd[of isWhiteSpace c cs] nc obtain ys where
    "rev (dropWhile isWhiteSpace (rev (c # cs))) = c # ys" by blast
  then have "trim a = c # ys" by (simp add: trim_def Cons del: rev.simps)
  with assms show ?thesis by simp
qed

lemma trim_leading:
  assumes "trim a = []"
  shows "trim (a @ b) = trim b"
proof -
  from whitespace_only[OF assms]
  have "dropWhile isWhiteSpace (a @ b) = dropWhile isWhiteSpace b"
    by (intro dropWhile_append2) blast
  then show ?thesis unfolding trim_def by (simp only:)
qed

lemma onerror_flush:
  assumes "code = NotAllowed \<or> code = ServiceNotAllowed"
  shows "published (trace (onerror code s))
           = published (trace s)
             @ (if trim (currentUtteranceRef s) = [] then [] else [trim (currentUtteranceRef s)])"
    and "trim (currentUtteranceRef s) \<noteq> [] \<Longrightarrow>
           finalizedUtterance (onerror code s) = trim (currentUtteranceRef s)"
proof -
  let ?d = "s\<lparr> error := Some permissionDeniedMessage, hasPermission := Some False,
               manualStopRef := True \<rparr>"
  have e: "onerror code s = (processCurrentUtterance ?d)\<lparr> isListening := False \<rparr>"
    using assms by (auto simp: onerror_def Let_def)
  show "published (trace (onerror code s))
           = published (trace s)
             @ (if trim (currentUtteranceRef s) = [] then [] else [trim (currentUtteranceRef s)])"
    unfolding e using published_processCurrentUtterance[of ?d] by simp
  assume "trim (currentUtteranceRef s) \<noteq> []"
  then have "trim (currentUtteranceRef ?d) \<noteq> []" by simp
  from processCurrentUtterance_flush[OF this]
  show "finalizedUtterance (onerror code s) = trim (currentUtteranceRef s)"
    unfolding e by simp
qed

lemma onend_flush:
  assumes "\<not> manualStopRef s"
  shows "published (trace (onend s))
           = published (trace s)
             @ (if trim (currentUtteranceRef s) = [] then [] else [trim (currentUtteranceRef s)])"
    and "trim (currentUtteranceRef s) \<noteq> [] \<Longrightarrow>
           finalizedUtterance (onend s) = trim (currentUtteranceRef s)"
proof -
  let ?s1 = "s\<lparr> isListening := False \<rparr>"
  let ?s2 = "processCurrentUtterance ?s1"
  have f: "manualStopRef ?s2 = manualStopRef s" "hasPermission ?s2 = hasPermission s"
    "recognitionRef ?s2 = recognitionRef s"
    by (simp_all add: processCurrentUtterance_fields)
  have tr: "published (trace (onend s)) = published (trace ?s2)"
    "finalizedUtterance (onend s) = finalizedUtterance ?s2"
    using assms by (simp_all add: onend_def Let_def f published_append split: option.split)
  show "published (trace (onend s))
           = published (trace s)
             @ (if trim (currentUtteranceRef s) = [] then [] else [trim (currentUtteranceRef s)])"
    unfolding tr using published_processCurrentUtterance[of ?s1] by simp
  assume "trim (currentUtteranceRef s) \<noteq> []"
  then have "trim (currentUtteranceRef ?s1) \<noteq> []" by simp
  from processCurrentUtterance_flush[OF this]
  show "finalizedUtterance (onend s) = trim (currentUtteranceRef s)"
    unfolding tr by simp
qed

lemma onresult_final_text:
  assumes "onlyFinal b" and "finalText b \<noteq> []" and "T < 2147483648"
    and "utteranceFinalizationTimeoutRef s = None \<and> timers s = []
         \<or> (\<exists>t dl. utteranceFinalizationTimeoutRef s = Some t \<and> timers s = [(t, dl)])"
  shows "armed T (onresult T b s)
    \<and> currentUtteranceRef (onresult T b s) = currentUtteranceRef s @ finalText b
    \<and> trace (onresult T b s) = trace s
    \<and> finalizedUtterance (onresult T b s) = finalizedUtterance s
    \<and> manualStopRef (onresult T b s) = manualStopRef s"
proof -
  note c = collect_onlyFinal[OF assms(1)]
  note d = timerDelay_small[OF assms(3)]
  from assms(4) show ?thesis
  proof
    assume "utteranceFinalizationTimeoutRef s = None \<and> timers s = []"
    then show ?thesis using c assms(2)
      by (simp add: onresult_def armed_def setTimeout_def d Let_def)
  next
    assume "\<exists>t dl. utteranceFinalizationTimeoutRef s = Some t \<and> timers s = [(t, dl)]"
    then obtain t dl where "utteranceFinalizationTimeoutRef s = Some t" "timers s = [(t, dl)]"
      by blast
    then show ?thesis using c assms(2)
      by (simp add: onresult_def armed_def setTimeout_def d clearTimeout_def Let_def)
  qed
qed

lemma advance_no_timers: "timers s = [] \<Longrightarrow> advance d s = s\<lparr> now := now s + d \<rparr>"
  by (simp add: advance_def runDueTimers.simps)

lemma advance_before_deadline:
  assumes "armed T s" and "d < T"
  shows "advance d s = s\<lparr> now := now s + d \<rparr>"
proof -
  from assms(1) obtain t where "timers s = [(t, now s + T)]"
    by (auto simp: armed_def split: option.splits)
  then show ?thesis using assms(2)
    by (simp add: advance_def runDueTimers.simps[of "s\<lparr> now := now s + d \<rparr>"])
qed

lemma advance_at_deadline:
  assumes "armed T s" and "T \<le> g"
  shows "advance g s
           = processCurrentUtterance (s\<lparr> now := now s + g, timers := [] \<rparr>)"
proof -
  from assms(1) obtain t where ref: "utteranceFinalizationTimeoutRef s = Some t"
    and tm: "timers s = [(t, now s + T)]"
    by (auto simp: armed_def split: option.splits)
  let ?s1 = "s\<lparr> now := now s + g \<rparr>"
  let ?r = "processCurrentUtterance (s\<lparr> now := now s + g, timers := [] \<rparr>)"
  have ct: "clearTimeout t ?s1 = s\<lparr> now := now s + g, timers := [] \<rparr>"
    by (simp add: clearTimeout_def tm)
  have "timers ?r = []"
    by (simp add: processCurrentUtterance_timers)
  then have stop: "runDueTimers ?r = ?r"
    by (simp add: runDueTimers.simps[of ?r])
  have "runDueTimers ?s1 = runDueTimers (processCurrentUtterance (clearTimeout t ?s1))"
    using assms(2) by (simp add: runDueTimers.simps[of ?s1] tm)
  also have "\<dots> = ?r" by (simp only: ct stop)
  finally show ?thesis
    by (simp add: advance_def)
qed

lemma feed_armed:
  assumes "list_all (\<lambda>p. fst p < T \<and> onlyFinal (snd p) \<and> finalText (snd p) \<noteq> []) bs"
    and "armed T s" and "T < 2147483648"
  shows "armed T (feed T bs s)
    \<and> currentUtteranceRef (feed T bs s) = currentUtteranceRef s @ spoken bs
    \<and> trace (feed T bs s) = trace s
    \<and> finalizedUtterance (feed T bs s) = finalizedUtterance s
    \<and> manualStopRef (feed T bs s) = manualStopRef s"
  using assms(1,2)
proof (induction bs arbitrary: s)
  case Nil
  then show ?case by (simp add: spoken_def)
next
  case (Cons p bs)
  obtain d b where p: "p = (d, b)" by (cases p)
  from Cons.prems p have d: "d < T" and b: "onlyFinal b" "finalText b \<noteq> []"
    and rest: "list_all (\<lambda>p. fst p < T \<and> onlyFinal (snd p) \<and> finalText (snd p) \<noteq> []) bs"
    by simp_all
  let ?s1 = "advance d s"
  have s1: "?s1 = s\<lparr> now := now s + d \<rparr>"
    using advance_before_deadline[OF Cons.prems(2) d] .
  from Cons.prems(2) have
    "\<exists>t dl. utteranceFinalizationTimeoutRef ?s1 = Some t \<and> timers ?s1 = [(t, dl)]"
    by (auto simp: s1 armed_def split: option.splits)
  then have pre: "utteranceFinalizationTimeoutRef ?s1 = None \<and> timers ?s1 = []
         \<or> (\<exists>t dl. utteranceFinalizationTimeoutRef ?s1 = Some t \<and> timers ?s1 = [(t, dl)])"
    by blast
  note step = onresult_final_text[OF b assms(3) pre]
  from step have a2: "armed T (onresult T b ?s1)" by blast
  note ih = Cons.IH[OF rest a2]
  have f: "feed T (p # bs) s = feed T bs (onresult T b ?s1)" by (simp add: p)
  have sp: "spoken (p # bs) = finalText b @ spoken bs" by (simp add: spoken_def p)
  have cur1: "currentUtteranceRef ?s1 = currentUtteranceRef s" and tr1: "trace ?s1 = trace s"
    and fu1: "finalizedUtterance ?s1 = finalizedUtterance s"
    and ms1: "manualStopRef ?s1 = manualStopRef s"
    by (simp_all add: s1)
  show ?case
    unfolding f sp using ih step cur1 tr1 fu1 ms1 by simp
qed

lemma feed_from_rest:
  assumes "T < 2147483648"
    and "utteranceFinalizationTimeoutRef s = None" and "timers s = []"
    and "list_all (\<lambda>p. onlyFinal (snd p) \<and> finalText (snd p) \<noteq> []) (p # rest)"
    and "list_all (\<lambda>p. fst p < T) rest"
  shows "armed T (feed T (p # rest) s)
    \<and> currentUtteranceRef (feed T (p # rest) s) = currentUtteranceRef s @ spoken (p # rest)
    \<and> trace (feed T (p # rest) s) = trace s
    \<and> manualStopRef (feed T (p # rest) s) = manualStopRef s"
proof -
  obtain d b where p: "p = (d, b)" by (cases p)
  let ?s0 = "advance d s"
  let ?s1 = "onresult T b ?s0"
  have s0: "?s0 = s\<lparr> now := now s + d \<rparr>" using advance_no_timers[OF assms(3)] .
  from assms(4) have b: "onlyFinal b" "finalText b \<noteq> []" by (simp_all add: p)
  have pre: "utteranceFinalizationTimeoutRef ?s0 = None \<and> timers ?s0 = []
         \<or> (\<exists>t dl. utteranceFinalizationTimeoutRef ?s0 = Some t \<and> timers ?s0 = [(t, dl)])"
    by (simp add: s0 assms(2,3))
  note first = onresult_final_text[OF b assms(1) pre]
  have restOK: "list_all (\<lambda>p. fst p < T \<and> onlyFinal (snd p) \<and> finalText (snd p) \<noteq> []) rest"
    using assms(4,5) by (auto simp: list_all_iff)
  from first have a1: "armed T ?s1" by blast
  note fd = feed_armed[OF restOK a1 assms(1)]
  have f: "feed T (p # rest) s = feed T rest ?s1" by (simp add: p)
  have sp: "spoken (p # rest) = finalText b @ spoken rest" by (simp add: spoken_def p)
  show ?thesis
    unfolding f sp using fd first by (simp add: s0)
qed

text \<open>
  Claim C1, as the code has it. The silence timeout \<open>T\<close> is below \<open>2^31\<close> ms, the range
  of a timer's delay. The hook has just finalized: no timer is pending and what is left of
  the accumulated text trims to nothing. Batches arrive whose new slots are all final and
  which each carry some final text, every batch after the first less than \<open>T\<close> ms after
  the one before. Then nothing is published while they arrive. Once \<open>g \<ge> T\<close> ms pass
  without a batch, or on a forced flush (\<open>stopListening\<close>, a \<open>not-allowed\<close> or
  \<open>service-not-allowed\<close> error, or a session end with the manual-stop flag unset), the
  trimmed concatenation of the fragments is published, once, when it is not empty, and
  nothing is published when it is empty; more silence publishes nothing more.
\<close>

theorem silence_finalizes_once:
  assumes "T < 2147483648"
    and "trim (currentUtteranceRef s) = []"
    and "utteranceFinalizationTimeoutRef s = None" and "timers s = []"
    and "list_all (\<lambda>p. onlyFinal (snd p) \<and> finalText (snd p) \<noteq> []) bs"
    and "list_all (\<lambda>p. fst p < T) (tl bs)"
    and "T \<le> g"
    and "code = NotAllowed \<or> code = ServiceNotAllowed"
  shows "published (trace (feed T bs s)) = published (trace s)
    \<and> published (trace (advance g (feed T bs s)))
        = published (trace s) @ (if trim (spoken bs) = [] then [] else [trim (spoken bs)])
    \<and> published (trace (advance g' (advance g (feed T bs s))))
        = published (trace (advance g (feed T bs s)))
    \<and> published (trace (stopListening (feed T bs s)))
        = published (trace s) @ (if trim (spoken bs) = [] then [] else [trim (spoken bs)])
    \<and> published (trace (onerror code (feed T bs s)))
        = published (trace s) @ (if trim (spoken bs) = [] then [] else [trim (spoken bs)])
    \<and> (\<not> manualStopRef s \<longrightarrow>
          published (trace (onend (feed T bs s)))
            = published (trace s) @ (if trim (spoken bs) = [] then [] else [trim (spoken bs)]))
    \<and> (trim (spoken bs) \<noteq> [] \<longrightarrow>
          finalizedUtterance (advance g (feed T bs s)) = trim (spoken bs)
          \<and> finalizedUtterance (stopListening (feed T bs s)) = trim (spoken bs)
          \<and> finalizedUtterance (onerror code (feed T bs s)) = trim (spoken bs)
          \<and> (\<not> manualStopRef s \<longrightarrow>
                finalizedUtterance (onend (feed T bs s)) = trim (spoken bs)))"
proof -
  let ?e = "feed T bs s"
  let ?u = "trim (spoken bs)"
  have base: "currentUtteranceRef ?e = currentUtteranceRef s @ spoken bs
              \<and> trace ?e = trace s \<and> manualStopRef ?e = manualStopRef s"
  proof (cases bs)
    case Nil
    then show ?thesis by (simp add: spoken_def)
  next
    case (Cons p rest)
    from feed_from_rest[OF assms(1,3,4), of p rest] assms(5,6) show ?thesis
      by (simp add: Cons)
  qed
  then have cur: "trim (currentUtteranceRef ?e) = ?u" and tr: "trace ?e = trace s"
    and ms: "manualStopRef ?e = manualStopRef s"
    by (simp_all add: trim_leading[OF assms(2)])
  have adv: "advance g ?e = processCurrentUtterance (?e\<lparr> now := now ?e + g, timers := [] \<rparr>)
             \<or> bs = [] \<and> advance g s = s\<lparr> now := now s + g \<rparr>"
  proof (cases bs)
    case Nil
    then show ?thesis using advance_no_timers[OF assms(4), of g] by simp
  next
    case (Cons p rest)
    from feed_from_rest[OF assms(1,3,4), of p rest] assms(5,6)
    have "armed T ?e" by (simp add: Cons)
    from advance_at_deadline[OF this assms(7)] show ?thesis by blast
  qed
  have empty: "?u = []" if "bs = []"
    using that by (simp add: spoken_def trim_def)
  let ?z = "?e\<lparr> now := now ?e + g, timers := [] \<rparr>"
  have curz: "trim (currentUtteranceRef ?z) = ?u" and trz: "trace ?z = trace s"
    using cur tr by simp_all
  have pubA: "published (trace (advance g ?e))
        = published (trace s) @ (if ?u = [] then [] else [?u])"
    using adv
  proof
    assume a: "advance g ?e = processCurrentUtterance ?z"
    show ?thesis
      unfolding a using published_processCurrentUtterance[of ?z] curz trz by simp
  next
    assume a: "bs = [] \<and> advance g s = s\<lparr> now := now s + g \<rparr>"
    then have b0: "bs = []" and a0: "advance g s = s\<lparr> now := now s + g \<rparr>" by simp_all
    show ?thesis by (simp add: b0 a0 spoken_def trim_def)
  qed
  have tmA: "timers (advance g ?e) = []"
    using adv
  proof
    assume a: "advance g ?e = processCurrentUtterance ?z"
    show ?thesis unfolding a by (simp add: processCurrentUtterance_timers)
  next
    assume a: "bs = [] \<and> advance g s = s\<lparr> now := now s + g \<rparr>"
    then have b0: "bs = []" and a0: "advance g s = s\<lparr> now := now s + g \<rparr>" by simp_all
    show ?thesis by (simp add: b0 a0 assms(4))
  qed
  from advance_no_timers[OF tmA, of g']
  have pubB: "published (trace (advance g' (advance g ?e))) = published (trace (advance g ?e))"
    by simp
  have pubS: "published (trace (stopListening ?e))
        = published (trace s) @ (if ?u = [] then [] else [?u])"
    using published_stopListening[of ?e] cur tr by simp
  have pubE: "published (trace (onerror code ?e))
        = published (trace s) @ (if ?u = [] then [] else [?u])"
    using onerror_flush(1)[OF assms(8), of ?e] cur tr by simp
  have pubN: "published (trace (onend ?e))
        = published (trace s) @ (if ?u = [] then [] else [?u])" if "\<not> manualStopRef s"
  proof -
    from that ms have "\<not> manualStopRef ?e" by simp
    from onend_flush(1)[OF this] cur tr show ?thesis by simp
  qed
  have fin: "finalizedUtterance (advance g ?e) = ?u
             \<and> finalizedUtterance (stopListening ?e) = ?u
             \<and> finalizedUtterance (onerror code ?e) = ?u
             \<and> (\<not> manualStopRef s \<longrightarrow> finalizedUtterance (onend ?e) = ?u)"
    if ne: "?u \<noteq> []"
  proof -
    from ne empty have "bs \<noteq> []" by blast
    with adv have a: "advance g ?e = processCurrentUtterance ?z" by blast
    have "trim (currentUtteranceRef ?z) \<noteq> []" using ne curz by simp
    from processCurrentUtterance_flush[OF this]
    have 1: "finalizedUtterance (advance g ?e) = ?u"
      unfolding a using curz by simp
    have ne': "trim (currentUtteranceRef ?e) \<noteq> []" using ne cur by simp
    from stop_publishes_trim[OF ne']
    have 2: "finalizedUtterance (stopListening ?e) = ?u"
      using cur by simp
    from onerror_flush(2)[OF assms(8) ne']
    have 3: "finalizedUtterance (onerror code ?e) = ?u"
      using cur by simp
    have 4: "finalizedUtterance (onend ?e) = ?u" if "\<not> manualStopRef s"
    proof -
      from that ms have "\<not> manualStopRef ?e" by simp
      from onend_flush(2)[OF this ne'] cur show ?thesis by simp
    qed
    from 1 2 3 4 show ?thesis by blast
  qed
  show ?thesis
    using tr pubA pubB pubS pubE pubN fin by simp
qed

text \<open>After a discarded space, \<open>"hello "\<close> and \<open>"world"\<close> within the timeout make the
  single utterance \<open>"hello world"\<close>, by silence and by each forced flush.\<close>

theorem silence_finalizes_once_witness:
  "(1500::nat) < 2147483648
   \<and> currentUtteranceRef discardedSpace = '' ''
   \<and> trim (currentUtteranceRef discardedSpace) = []
   \<and> utteranceFinalizationTimeoutRef discardedSpace = None \<and> timers discardedSpace = []
   \<and> list_all (\<lambda>p. onlyFinal (snd p) \<and> finalText (snd p) \<noteq> []) helloWorld
   \<and> list_all (\<lambda>p. fst p < 1500) (tl helloWorld)
   \<and> \<not> manualStopRef discardedSpace
   \<and> published (trace (feed 1500 helloWorld discardedSpace)) = []
   \<and> published (trace (advance 1500 (feed 1500 helloWorld discardedSpace))) = [''hello world'']
   \<and> published (trace (advance 9000 (advance 1500 (feed 1500 helloWorld discardedSpace))))
       = published (trace (advance 1500 (feed 1500 helloWorld discardedSpace)))
   \<and> published (trace (stopListening (feed 1500 helloWorld discardedSpace))) = [''hello world'']
   \<and> published (trace (onerror NotAllowed (feed 1500 helloWorld discardedSpace)))
       = [''hello world'']
   \<and> published (trace (onend (feed 1500 helloWorld discardedSpace))) = [''hello world'']
   \<and> finalizedUtterance (stopListening (feed 1500 helloWorld discardedSpace)) = ''hello world''"
proof -
  have h: "(1500::nat) < 2147483648"
    "trim (currentUtteranceRef discardedSpace) = []"
    "utteranceFinalizationTimeoutRef discardedSpace = None" "timers discardedSpace = []"
    "list_all (\<lambda>p. onlyFinal (snd p) \<and> finalText (snd p) \<noteq> []) helloWorld"
    "list_all (\<lambda>p. fst p < 1500) (tl helloWorld)"
    by (simp_all add: run_defs batch_defs helloWorld_def discardedSpace_def)
  have le: "(1500::nat) \<le> 1500" by simp
  have c: "NotAllowed = NotAllowed \<or> NotAllowed = ServiceNotAllowed" by simp
  have v: "published (trace discardedSpace) = []" "trim (spoken helloWorld) = ''hello world''"
    "currentUtteranceRef discardedSpace = '' ''" "\<not> manualStopRef discardedSpace"
    by (simp_all add: run_defs batch_defs helloWorld_def discardedSpace_def)
  from silence_finalizes_once[OF h le c, of 9000] show ?thesis
    using h by (simp add: v)
qed

text \<open>
  The claim as stated fails three times. A sequence whose final text is a single space
  finalizes no utterance. A final result with the empty transcript does not push the
  deadline: in \<open>helloPauseWorld\<close> every gap is 1000 ms, below the timeout of 1500 ms, yet
  the timer armed by \<open>"hello"\<close> fires before \<open>"world"\<close> arrives, and two utterances are
  finalized. And with a timeout of \<open>2^31\<close> ms the timer of \<open>"hello "\<close> is due at once, so
  that \<open>"hello"\<close> is published before \<open>"world"\<close> arrives 700 ms later, and again two
  utterances are finalized.
\<close>

theorem silence_finalizes_once_counterexample:
  "published (trace (advance 1500 (feed 1500 [(200, batch 0 [finalSlot '' ''])] listeningState)))
     = []
   \<and> published (trace (advance 1500 (feed 1500 helloPauseWorld listeningState)))
     = [''hello'', ''world'']
   \<and> published (trace (feed 2147483648 helloWorld listeningState)) = [''hello'']
   \<and> published (trace (advance 2147483648 (feed 2147483648 helloWorld listeningState)))
     = [''hello'', ''world'']"
  by (simp add: run_defs batch_defs helloPauseWorld_def helloWorld_def)

section \<open>Text that trims to nothing makes no turn\<close>

lemma quiet_processCurrentUtterance:
  "trim (currentUtteranceRef s) = [] \<Longrightarrow> quiet s (processCurrentUtterance s)"
  using processCurrentUtterance_discard[of s] by (simp add: quiet_def)

lemma quiet_runDueTimers:
  "trim (currentUtteranceRef s) = [] \<Longrightarrow> quiet s (runDueTimers s)"
proof (induction s rule: runDueTimers.induct)
  case (1 s)
  show ?case
  proof (cases "find (\<lambda>p. snd p \<le> now s) (timers s)")
    case None
    then show ?thesis by (simp add: runDueTimers.simps[of s] quiet_def)
  next
    case (Some p)
    let ?c = "clearTimeout (fst p) s"
    have e: "trim (currentUtteranceRef ?c) = []" using "1.prems" by (simp add: clearTimeout_def)
    from quiet_processCurrentUtterance[OF e]
    have q: "quiet s (processCurrentUtterance ?c)"
      by (simp add: quiet_def clearTimeout_def)
    then have "trim (currentUtteranceRef (processCurrentUtterance ?c)) = []"
      using "1.prems" by (simp add: quiet_def)
    from "1.IH"[OF Some this] q show ?thesis
      by (simp add: runDueTimers.simps[of s] Some quiet_def)
  qed
qed

lemma quiet_stopListeningWith:
  assumes "trim (currentUtteranceRef s) = []"
  shows "quiet s (stopListeningWith c s)"
proof -
  let ?s2 = "case utteranceFinalizationTimeoutRef (s\<lparr>manualStopRef := True\<rparr>) of
               None \<Rightarrow> s\<lparr>manualStopRef := True\<rparr>
             | Some t \<Rightarrow> (clearTimeout t (s\<lparr>manualStopRef := True\<rparr>))
                           \<lparr>utteranceFinalizationTimeoutRef := None\<rparr>"
  have cur: "currentUtteranceRef ?s2 = currentUtteranceRef s" and tr: "trace ?s2 = trace s"
    and fu: "finalizedUtterance ?s2 = finalizedUtterance s"
    by (simp_all add: clearTimeout_def split: option.split)
  have "trim (currentUtteranceRef ?s2) = []" using assms cur by simp
  from processCurrentUtterance_discard[OF this] cur tr fu show ?thesis
    unfolding stopListeningWith_def Let_def quiet_def
    by (simp add: published_append split: option.split)
qed

lemma quiet_stopListening:
  "trim (currentUtteranceRef s) = [] \<Longrightarrow> quiet s (stopListening s)"
  by (simp add: stopListening_def quiet_stopListeningWith)

lemma quiet_finalizationEvent:
  assumes "trim (currentUtteranceRef s) = []" and "finalizationEvent ev"
  shows "quiet s (hook_step T s ev)"
proof (cases ev)
  case (Advance ms)
  have "trim (currentUtteranceRef (s\<lparr>now := now s + ms\<rparr>)) = []" using assms(1) by simp
  from quiet_runDueTimers[OF this] show ?thesis
    by (simp add: Advance advance_def quiet_def)
next
  case StopListening
  then show ?thesis using quiet_stopListening[OF assms(1)] by simp
next
  case (OnError code)
  let ?d = "s\<lparr> error := Some permissionDeniedMessage, hasPermission := Some False,
               manualStopRef := True \<rparr>"
  have "trim (currentUtteranceRef ?d) = []" using assms(1) by simp
  from quiet_processCurrentUtterance[OF this] show ?thesis
    by (simp add: OnError onerror_def quiet_def Let_def)
next
  case OnEnd
  let ?s1 = "s\<lparr> isListening := False \<rparr>"
  have "trim (currentUtteranceRef ?s1) = []" using assms(1) by simp
  from quiet_processCurrentUtterance[OF this] show ?thesis
    by (simp add: OnEnd onend_def quiet_def Let_def processCurrentUtterance_fields
          published_append split: option.split)
next
  case (PermissionChange captured st)
  let ?s2 = "s\<lparr> hasPermission := Some False, error := Some permissionDeniedMessage \<rparr>"
  have "trim (currentUtteranceRef ?s2) = []" using assms(1) by simp
  from quiet_stopListeningWith[OF this, of True] show ?thesis
    by (simp add: PermissionChange onPermissionChange_def quiet_def Let_def)
qed (use assms(2) in simp_all)

lemma nonEmptyTurn_touchesOnly:
  "touchesOnly tid conv conv' \<Longrightarrow> list_all nonEmptyTurn conv \<Longrightarrow> list_all nonEmptyTurn conv'"
  unfolding touchesOnly_def
  by (induction conv conv' rule: list_all2_induct) (simp_all add: nonEmptyTurn_def)

lemma appInv_finalizedUtteranceEffect: "appInv a \<Longrightarrow> appInv (finalizedUtteranceEffect a)"
  by (simp add: appInv_def finalizedUtteranceEffect_def wellTrimmed_def nonEmptyTurn_def
        newTurn_def clearFinalizedUtterance_def trim_Nil)

lemma appInv_afterRender: "appInv a' \<Longrightarrow> appInv (afterRender a a')"
  by (simp add: afterRender_def appInv_finalizedUtteranceEffect)

lemma appInv_app_handle: "appInv a \<Longrightarrow> appInv (app_handle T a ev)"
proof (cases ev)
  case (Hook hev)
  assume "appInv a"
  then show ?thesis using wellTrimmed_hook_step[of "hook a" T hev]
    by (simp add: Hook appInv_def)
next
  case (ApiKeyChecked ok)
  assume "appInv a" then show ?thesis by (simp add: ApiKeyChecked appInv_def)
next
  case (ToggleSession outcome)
  assume "appInv a"
  then show ?thesis
    using wellTrimmed_hook_step[of "hook a" T "StartListening outcome"]
          wellTrimmed_hook_step[of "hook a" T StopListening]
    by (simp add: ToggleSession appInv_def handleToggleSession_def Let_def)
next
  case (ClearConversation confirmed)
  assume "appInv a" then show ?thesis
    by (simp add: ClearConversation appInv_def handleClearConversation_def)
next
  case (StreamChunk tid chunk)
  assume "appInv a" then show ?thesis
    using nonEmptyTurn_touchesOnly[OF touchesOnly_onChunk, of "conversation a" tid chunk]
    by (simp add: StreamChunk appInv_def)
next
  case (StreamThrew tid err)
  assume "appInv a" then show ?thesis
    using nonEmptyTurn_touchesOnly[OF touchesOnly_streamFailed, of "conversation a" tid]
    by (simp add: StreamThrew appInv_def)
next
  case (StreamFinally tid)
  assume "appInv a" then show ?thesis
    using nonEmptyTurn_touchesOnly[OF touchesOnly_streamFinally, of "conversation a" tid]
    by (simp add: StreamFinally appInv_def)
qed

lemma appInv_app_run: "appInv a \<Longrightarrow> appInv (app_run T evs a)"
  unfolding app_run_def
  by (induction evs arbitrary: a) (simp_all add: app_step_def appInv_afterRender appInv_app_handle)

lemma appInv_initial: "appInv (initial_app api)"
  by (simp add: appInv_def initial_app_def wellTrimmed_initial)

text \<open>
  Claim C6. When the accumulated final text trims to the empty string, an event that can
  finalize (a timer expiry, a stop, an error, a session end, a permission change) publishes
  nothing: \<open>finalizedUtterance\<close> keeps its value, the log of published utterances does
  not grow, and the application creates no turn; nor does toggling the session create one.
  In every state the application reaches from its initial state the published utterance is
  equal to its trim, and every turn of the conversation has an utterance that is not empty
  and is trimmed.
\<close>

theorem empty_utterance_discarded:
  assumes "trim (currentUtteranceRef (hook a)) = []" and "finalizationEvent ev"
  shows "finalizedUtterance (hook_step T (hook a) ev) = finalizedUtterance (hook a)
    \<and> published (trace (hook_step T (hook a) ev)) = published (trace (hook a))
    \<and> conversation (app_step T a (Hook ev)) = conversation a
    \<and> conversation (app_step T a (ToggleSession outcome)) = conversation a
    \<and> trim (finalizedUtterance (hook (app_run T evs (initial_app api))))
        = finalizedUtterance (hook (app_run T evs (initial_app api)))
    \<and> list_all (\<lambda>turn. utterance turn \<noteq> [] \<and> trim (utterance turn) = utterance turn)
        (conversation (app_run T evs (initial_app api)))"
proof -
  from quiet_finalizationEvent[OF assms, of T]
  have q: "finalizedUtterance (hook_step T (hook a) ev) = finalizedUtterance (hook a)"
    "published (trace (hook_step T (hook a) ev)) = published (trace (hook a))"
    by (simp_all add: quiet_def)
  have c: "conversation (app_step T a (Hook ev)) = conversation a"
    by (simp add: app_step_def afterRender_def q)
  from appInv_app_run[OF appInv_initial, of T evs api]
  have i: "trim (finalizedUtterance (hook (app_run T evs (initial_app api))))
             = finalizedUtterance (hook (app_run T evs (initial_app api)))"
    "list_all nonEmptyTurn (conversation (app_run T evs (initial_app api)))"
    by (simp_all add: appInv_def wellTrimmed_def)
  from i(2) have "list_all (\<lambda>turn. utterance turn \<noteq> [] \<and> trim (utterance turn) = utterance turn)
        (conversation (app_run T evs (initial_app api)))"
    by (simp add: nonEmptyTurn_def[abs_def])
  with q c i(1) toggle_creates_no_turn show ?thesis by blast
qed

text \<open>Mumbling, then silence: the timer expires, nothing is published and the conversation
  stays empty.\<close>

theorem empty_utterance_discarded_witness:
  "trim (currentUtteranceRef (hook mumbling)) = []
   \<and> finalizationEvent (Advance 1500)
   \<and> timers (hook mumbling) = [(TimerId 2, 1600)]
   \<and> timers (hook_step 1500 (hook mumbling) (Advance 1500)) = []
   \<and> finalizedUtterance (hook_step 1500 (hook mumbling) (Advance 1500)) = []
   \<and> conversation (app_step 1500 mumbling (Hook (Advance 1500))) = []"
proof -
  have h: "trim (currentUtteranceRef (hook mumbling)) = []" "finalizationEvent (Advance 1500)"
    by (simp_all add: run_defs mumbling_def)
  have v: "timers (hook mumbling) = [(TimerId 2, 1600)]"
    "timers (advance 1500 (hook mumbling)) = []"
    "finalizedUtterance (hook mumbling) = []" "conversation mumbling = []"
    by (simp_all add: run_defs mumbling_def)
  from empty_utterance_discarded[OF h, of 1500 Started "[]" True] show ?thesis
    using h by (simp add: v)
qed

section \<open>After a permission error\<close>









end
